theory Spec2Isabelle
  imports Main "HOL-Library.Sublist"
begin

section \<open>Strings\<close>

text \<open>
  A JavaScript string is a sequence of UTF-16 code units. Here a \<^typ>\<open>string\<close> is a
  list of code units below 256 (one \<^typ>\<open>char\<close> each), so \<^const>\<open>length\<close> is the
  JavaScript \<^verbatim>\<open>length\<close>. The tags, the content types and the error texts of
  \<^verbatim>\<open>request.ts\<close> are all in that range, and so is every header value; a text with a code
  unit from 256 on is outside this model.
\<close>

definition newline :: char where
  "newline = CHR 0x0A"

text \<open>
  \<^verbatim>\<open>trimStart\<close> removes white space and line terminators. Among the code units below
  256 these are TAB, LF, VT, FF, CR, SPACE and NO-BREAK SPACE.
\<close>

definition is_space :: "char \<Rightarrow> bool" where
  "is_space c = (c \<in> {CHR 0x09, CHR 0x0A, CHR 0x0B, CHR 0x0C, CHR 0x0D, CHR 0x20, CHR 0xA0})"

definition trimStart :: "string \<Rightarrow> string" where
  "trimStart s = dropWhile is_space s"

section \<open>stripThinkingContent\<close>

text \<open>
  The two regular expressions of \<^verbatim>\<open>stripThinkingContent\<close> are built from one tag
  pattern, \<^verbatim>\<open><think(?:ing)?>\<close> and \<^verbatim>\<open><\/think(?:ing)?>\<close>: a lead, then optionally
  \<^verbatim>\<open>ing\<close>, then \<^verbatim>\<open>>\<close>. \<open>tag_len lead s\<close> is the length of the tag matched at the
  start of \<open>s\<close>. The optional group is greedy, but the character after the lead
  decides alone which of the two forms can match, so backtracking never finds a second
  match at the same place.
\<close>

definition open_lead :: string where
  "open_lead = ''<think''"

definition close_lead :: string where
  "close_lead = ''</think''"

definition tag_len :: "string \<Rightarrow> string \<Rightarrow> nat option" where
  "tag_len lead s =
     (if prefix (lead @ ''ing>'') s then Some (length lead + 4)
      else if prefix (lead @ ''>'') s then Some (length lead + 1)
      else None)"

text \<open>
  The lazy \<^verbatim>\<open>[\s\S]*?\<close> followed by the closing tag: the nearest closing tag at or
  after the start of \<open>s\<close>; the result counts the characters up to its end.
  \<^verbatim>\<open>[\s\S]\<close> matches every code unit, line terminators included.
\<close>

fun find_close :: "string \<Rightarrow> nat option" where
  "find_close [] = None"
| "find_close (c # cs) =
     (case tag_len close_lead (c # cs) of
        Some n \<Rightarrow> Some n
      | None \<Rightarrow> map_option Suc (find_close cs))"

text \<open>The whole pattern of line 7 at the start of \<open>s\<close>: the length of the span.\<close>

definition match_span :: "string \<Rightarrow> nat option" where
  "match_span s =
     (case tag_len open_lead s of
        None \<Rightarrow> None
      | Some n \<Rightarrow>
          (case find_close (drop n s) of
             None \<Rightarrow> None
           | Some m \<Rightarrow> Some (n + m)))"

text \<open>
  \<^verbatim>\<open>text.replace(/.../g, '')\<close>: scan from the left; where the pattern matches, drop the
  span and go on after it (the span is never empty); elsewhere keep the character.
\<close>

fun remove_closed :: "string \<Rightarrow> string" where
  "remove_closed [] = []"
| "remove_closed (c # cs) =
     (case match_span (c # cs) of
        Some n \<Rightarrow> remove_closed (drop (n - 1) cs)
      | None \<Rightarrow> c # remove_closed cs)"

text \<open>\<^verbatim>\<open>text.match(/<think(?:ing)?>/)\<close>: the index of the first opening tag.\<close>

fun search_open :: "string \<Rightarrow> nat option" where
  "search_open [] = None"
| "search_open (c # cs) =
     (if tag_len open_lead (c # cs) \<noteq> None then Some 0
      else map_option Suc (search_open cs))"

text \<open>Lines 9 to 12: cut the text at the first opening tag, if there is one.\<close>

definition cut_at_open :: "string \<Rightarrow> string" where
  "cut_at_open s =
     (case search_open s of
        Some i \<Rightarrow> take i s
      | None \<Rightarrow> s)"

definition stripThinkingContent :: "string \<Rightarrow> string" where
  "stripThinkingContent text0 =
     (let text1 = remove_closed text0;
          text2 = cut_at_open text1
      in trimStart text2)"

section \<open>Exceptions and JSON values\<close>

text \<open>
  A thrown value. JavaScript throws any value: an error object of some kind with its
  message, a string (\<open>Throw\<close>); another value that is neither \<^verbatim>\<open>null\<close> nor \<^verbatim>\<open>undefined\<close> and
  has no member \<^verbatim>\<open>message\<close>, such as a string or a number (\<open>ThrowPlain\<close>); or \<^verbatim>\<open>null\<close> or
  \<^verbatim>\<open>undefined\<close> (\<open>ThrowNullish\<close>). A thrown object whose \<^verbatim>\<open>message\<close> is not a string is
  outside this model. The wording of a \<^verbatim>\<open>TypeError\<close> that the runtime raises is the
  engine's own: \<open>type_error\<close> stands for it with a fixed text.
\<close>

datatype ekind = Error | TypeError | SyntaxError | AbortError

datatype exn = Throw ekind string | ThrowPlain | ThrowNullish

definition type_error :: exn where
  "type_error = Throw TypeError ''not an object or not a function''"

text \<open>
  \<^verbatim>\<open>${(e as Error).message}\<close> of line 88: the cast does nothing at run time. An error
  object gives its message; a value without the member gives \<^verbatim>\<open>undefined\<close>, which the
  template writes as the text \<^verbatim>\<open>undefined\<close>; reading the member of \<^verbatim>\<open>null\<close> or
  \<^verbatim>\<open>undefined\<close> throws a \<^verbatim>\<open>TypeError\<close>.
\<close>

fun message :: "exn \<Rightarrow> exn + string" where
  "message (Throw k m) = Inr m"
| "message ThrowPlain = Inr ''undefined''"
| "message ThrowNullish = Inl type_error"

text \<open>
  A parsed JSON value. Numbers are integers: the code only asks whether a number is
  zero. An object is the list of its members, each key once. \<open>None\<close> of type
  \<open>jsval\<close> is JavaScript's \<^verbatim>\<open>undefined\<close>.
\<close>

datatype json =
    JNull
  | JBool bool
  | JNum int
  | JStr string
  | JArr "json list"
  | JObj "(string \<times> json) list"

type_synonym jsval = "json option"

fun truthy :: "jsval \<Rightarrow> bool" where
  "truthy None = False"
| "truthy (Some JNull) = False"
| "truthy (Some (JBool b)) = b"
| "truthy (Some (JNum n)) = (n \<noteq> 0)"
| "truthy (Some (JStr s)) = (s \<noteq> [])"
| "truthy (Some (JArr xs)) = True"
| "truthy (Some (JObj kvs)) = True"

text \<open>
  Reading a member of a value that is neither \<^verbatim>\<open>null\<close> nor \<^verbatim>\<open>undefined\<close>. The keys
  this code reads (\<^verbatim>\<open>choices\<close>, \<^verbatim>\<open>delta\<close>, \<^verbatim>\<open>message\<close>, \<^verbatim>\<open>content\<close>, \<^verbatim>\<open>error\<close>) are members
  of no prototype, so only an object that holds the key answers.
\<close>

fun get_prop :: "string \<Rightarrow> json \<Rightarrow> jsval" where
  "get_prop k (JObj kvs) = map_of kvs k"
| "get_prop k v = None"

text \<open>\<^verbatim>\<open>v.k\<close>: a \<^verbatim>\<open>TypeError\<close> when \<open>v\<close> is \<^verbatim>\<open>null\<close> or \<^verbatim>\<open>undefined\<close>.\<close>

fun member :: "jsval \<Rightarrow> string \<Rightarrow> exn + jsval" where
  "member None k = Inl type_error"
| "member (Some JNull) k = Inl type_error"
| "member (Some v) k = Inr (get_prop k v)"

text \<open>
  \<^verbatim>\<open>v?.rest\<close>: when \<open>v\<close> is \<^verbatim>\<open>null\<close> or \<^verbatim>\<open>undefined\<close> the whole rest of the chain is
  skipped and the expression is \<^verbatim>\<open>undefined\<close>.
\<close>

fun opt_chain :: "jsval \<Rightarrow> (json \<Rightarrow> exn + jsval) \<Rightarrow> exn + jsval" where
  "opt_chain None rest = Inr None"
| "opt_chain (Some JNull) rest = Inr None"
| "opt_chain (Some v) rest = rest v"

text \<open>
  \<^verbatim>\<open>v.at(0)\<close> for a \<open>v\<close> that is neither \<^verbatim>\<open>null\<close> nor \<^verbatim>\<open>undefined\<close>: arrays and strings
  have the method; on a number, a boolean or an object \<^verbatim>\<open>v.at\<close> is not a function
  (a JSON member named \<^verbatim>\<open>at\<close> is never one) and the call throws.
\<close>

fun at0 :: "json \<Rightarrow> exn + jsval" where
  "at0 (JArr xs) = Inr (case xs of [] \<Rightarrow> None | x # rest \<Rightarrow> Some x)"
| "at0 (JStr s) = Inr (case s of [] \<Rightarrow> None | c # rest \<Rightarrow> Some (JStr [c]))"
| "at0 v = Inl type_error"

section \<open>The extractors and their defaults\<close>

text \<open>\<^verbatim>\<open>d?.choices?.at(0)?.delta?.content\<close>\<close>

definition default_contentExtractor :: "json \<Rightarrow> exn + jsval" where
  "default_contentExtractor d =
     opt_chain (Some d) (\<lambda>d.
       opt_chain (get_prop ''choices'' d) (\<lambda>choices.
         case at0 choices of
           Inl e \<Rightarrow> Inl e
         | Inr first \<Rightarrow>
             opt_chain first (\<lambda>first.
               opt_chain (get_prop ''delta'' first) (\<lambda>delta.
                 Inr (get_prop ''content'' delta)))))"

text \<open>\<^verbatim>\<open>d.choices?.at(0)?.message.content\<close>\<close>

definition default_fullContentExtractor :: "json \<Rightarrow> exn + jsval" where
  "default_fullContentExtractor d =
     (case member (Some d) ''choices'' of
        Inl e \<Rightarrow> Inl e
      | Inr choices \<Rightarrow>
          opt_chain choices (\<lambda>choices.
            case at0 choices of
              Inl e \<Rightarrow> Inl e
            | Inr first \<Rightarrow>
                opt_chain first (\<lambda>first.
                  member (get_prop ''message'' first) ''content'')))"

text \<open>\<^verbatim>\<open>d.error?.message\<close>\<close>

definition default_errorExtractor :: "json \<Rightarrow> exn + jsval" where
  "default_errorExtractor d =
     (case member (Some d) ''error'' of
        Inl e \<Rightarrow> Inl e
      | Inr err \<Rightarrow> opt_chain err (\<lambda>err. Inr (get_prop ''message'' err)))"

section \<open>Responses, streams and options\<close>

text \<open>
  What the code reads of a \<^verbatim>\<open>Response\<close>: \<^verbatim>\<open>ok\<close>, \<^verbatim>\<open>statusText\<close>, the value of
  \<^verbatim>\<open>headers.get('content-type')\<close> (\<open>None\<close> for \<^verbatim>\<open>null\<close>: no such header), and what
  \<^verbatim>\<open>await resp.json()\<close> gives: the parsed body, or the exception it rejects with.
\<close>

record response =
  ok :: bool
  statusText :: string
  content_type :: "string option"
  json_result :: "exn + json"

text \<open>
  An \<^verbatim>\<open>AsyncIterable\<close> as the \<^verbatim>\<open>for await\<close> loop sees it: the frames it yields, in
  order, and then how iteration ends: normally (\<open>None\<close>) or by raising. The sequence is
  finite.
\<close>

record 'a stream =
  yields :: "'a list"
  raises :: "exn option"

record controller =
  aborted :: bool

definition new_AbortController :: controller where
  "new_AbortController = \<lparr>aborted = False\<rparr>"

text \<open>
  \<^verbatim>\<open>SseChatCompatibleOptions\<close>: four optional functions (\<open>None\<close>: the member is absent).
  An extractor answers with a JavaScript value or throws. Extractors are functions of
  their argument: one asked twice about the same value answers the same.
\<close>

type_synonym extractor = "json \<Rightarrow> exn + jsval"

record options =
  streamBuilder :: "(response \<Rightarrow> controller \<Rightarrow> exn + json stream option) option"
  contentExtractor :: "extractor option"
  fullContentExtractor :: "extractor option"
  errorExtractor :: "extractor option"

definition no_options :: options where
  "no_options = \<lparr>streamBuilder = None, contentExtractor = None,
     fullContentExtractor = None, errorExtractor = None\<rparr>"

text \<open>
  \<^verbatim>\<open>a || b\<close> on an optional function: a function is truthy, so \<open>b\<close> is taken exactly
  when \<open>a\<close> is absent.
\<close>

definition or_default :: "'a option \<Rightarrow> 'a \<Rightarrow> 'a option" where
  "or_default a b = (case a of Some f \<Rightarrow> Some f | None \<Rightarrow> Some b)"

text \<open>
  The class \<^verbatim>\<open>Stream\<close> of \<^verbatim>\<open>./stream\<close> is not part of \<^verbatim>\<open>request.ts\<close>: \<open>new_Stream\<close>, the
  frames that \<^verbatim>\<open>new Stream(r, c)\<close> yields, is a parameter.
\<close>

definition fixOpenAICompatibleOptions ::
  "(response \<Rightarrow> controller \<Rightarrow> json stream) \<Rightarrow> options option \<Rightarrow> options" where
  "fixOpenAICompatibleOptions new_Stream options0 =
     (let options1 = (case options0 of Some given \<Rightarrow> given | None \<Rightarrow> no_options);
          options2 = options1\<lparr>streamBuilder :=
            or_default (streamBuilder options1) (\<lambda>r c. Inr (Some (new_Stream r c)))\<rparr>;
          options3 = options2\<lparr>contentExtractor :=
            or_default (contentExtractor options2) default_contentExtractor\<rparr>;
          options4 = options3\<lparr>fullContentExtractor :=
            or_default (fullContentExtractor options3) default_fullContentExtractor\<rparr>;
          options5 = options4\<lparr>errorExtractor :=
            or_default (errorExtractor options4) default_errorExtractor\<rparr>
      in options5)"

section \<open>The response classifier\<close>

text \<open>
  \<^verbatim>\<open>toLowerCase\<close> on code units below 256: the letters A to Z and the capital letters
  of Latin-1 (0xC0 to 0xDE without the multiplication sign 0xD7) move up by 32.
\<close>

definition lower_char :: "char \<Rightarrow> char" where
  "lower_char c =
     (let n = (of_char c :: nat)
      in if (65 \<le> n \<and> n \<le> 90) \<or> (192 \<le> n \<and> n \<le> 222 \<and> n \<noteq> 215)
         then char_of (n + 32) else c)"

definition toLowerCase :: "string \<Rightarrow> string" where
  "toLowerCase s = map lower_char s"

text \<open>\<^verbatim>\<open>s.includes(p)\<close>: \<open>p\<close> starts at some index of \<open>s\<close>.\<close>

fun js_includes :: "string \<Rightarrow> string \<Rightarrow> bool" where
  "js_includes [] p = (p = [])"
| "js_includes (c # cs) p = (prefix p (c # cs) \<or> js_includes cs p)"

definition isJsonResponse :: "response \<Rightarrow> bool" where
  "isJsonResponse resp =
     (case content_type resp of
        None \<Rightarrow> False
      | Some contentType \<Rightarrow> js_includes (toLowerCase contentType) ''application/json'')"

definition event_stream_types :: "string list" where
  "event_stream_types = [''application/stream+json'', ''text/event-stream'']"

definition isEventStreamResponse :: "response \<Rightarrow> bool" where
  "isEventStreamResponse resp =
     (let content = (case content_type resp of
                       None \<Rightarrow> []
                     | Some contentType \<Rightarrow> toLowerCase contentType)
      in list_ex (\<lambda>type. js_includes content type) event_stream_types)"

section \<open>streamHandler\<close>

text \<open>
  The partial-result sink \<^verbatim>\<open>onStream\<close>: given the texts it was called with before and
  the new text, its promise resolves (\<open>None\<close>) or rejects.
\<close>

type_synonym sink = "string list \<Rightarrow> string \<Rightarrow> exn option"

text \<open>
  The local variables of \<^verbatim>\<open>streamHandler\<close>, and two observations of its run: \<open>reads\<close>
  counts the calls of \<^verbatim>\<open>Date.now()\<close> so far (the \<open>n\<close>-th call reads \<open>clock n\<close>), and
  \<open>sent\<close> lists the texts passed to \<^verbatim>\<open>onStream\<close>.
\<close>

record acc =
  contentFull :: string
  lengthDelta :: nat
  updateStep :: nat
  lastUpdateTime :: int
  lastStreamText :: string
  reads :: nat
  sent :: "string list"

definition ellipsis :: string where
  "ellipsis = newline # ''...''"

definition error_prefix :: string where
  "error_prefix = newline # ''Error: ''"

text \<open>
  Lines 80 to 84: the flush proper. The result says whether the awaited sink rejected.
\<close>

definition flush :: "sink option \<Rightarrow> acc \<Rightarrow> exn option \<times> acc" where
  "flush onStream st0 =
     (let st1 = st0\<lparr>lengthDelta := 0, updateStep := updateStep st0 + 20\<rparr>;
          displayText = stripThinkingContent (contentFull st1)
      in if displayText \<noteq> [] \<and> displayText \<noteq> lastStreamText st1 then
           (let st2 = st1\<lparr>lastStreamText := displayText\<rparr>
            in case onStream of
                 None \<Rightarrow> (None, st2)
               | Some f \<Rightarrow>
                   (f (sent st2) (displayText @ ellipsis),
                    st2\<lparr>sent := sent st2 @ [displayText @ ellipsis]\<rparr>))
         else (None, st1))"

text \<open>
  One turn of the loop body, lines 64 to 85, for the frame \<open>part\<close>. \<open>min_interval\<close> is
  \<^verbatim>\<open>ENV.TELEGRAM_MIN_STREAM_INTERVAL\<close>. The first component is the exception thrown
  in the body, if any (by the extractor or by the sink).
\<close>

definition consume_part ::
  "int \<Rightarrow> (nat \<Rightarrow> int) \<Rightarrow> ('a \<Rightarrow> exn + string option) \<Rightarrow> sink option \<Rightarrow> acc \<Rightarrow> 'a
     \<Rightarrow> exn option \<times> acc" where
  "consume_part min_interval clock extract onStream st0 part =
     (case extract part of
        Inl e \<Rightarrow> (Some e, st0)
      | Inr None \<Rightarrow> (None, st0)
      | Inr (Some textPart) \<Rightarrow>
          if textPart = [] then (None, st0)
          else
            (let st1 = st0\<lparr>lengthDelta := lengthDelta st0 + length textPart,
                           contentFull := contentFull st0 @ textPart\<rparr>
             in if lengthDelta st1 > updateStep st1 then
                  (if min_interval > 0 then
                     (let delta = clock (reads st1) - lastUpdateTime st1
                      in if delta < min_interval then (None, st1\<lparr>reads := reads st1 + 1\<rparr>)
                         else flush onStream
                                (st1\<lparr>lastUpdateTime := clock (reads st1 + 1),
                                     reads := reads st1 + 2\<rparr>))
                   else flush onStream st1)
                else (None, st1)))"

text \<open>The \<^verbatim>\<open>for await\<close> loop over the frames: it stops at the first exception.\<close>

fun consume ::
  "int \<Rightarrow> (nat \<Rightarrow> int) \<Rightarrow> ('a \<Rightarrow> exn + string option) \<Rightarrow> sink option \<Rightarrow> acc \<Rightarrow> 'a list
     \<Rightarrow> exn option \<times> acc" where
  "consume min_interval clock extract onStream st [] = (None, st)"
| "consume min_interval clock extract onStream st (part # parts) =
     (case consume_part min_interval clock extract onStream st part of
        (Some e, st') \<Rightarrow> (Some e, st')
      | (None, st') \<Rightarrow> consume min_interval clock extract onStream st' parts)"

definition initial :: "(nat \<Rightarrow> int) \<Rightarrow> acc" where
  "initial clock = \<lparr>contentFull = [], lengthDelta = 0, updateStep = 50,
     lastUpdateTime = clock 0, lastStreamText = [], reads = 1, sent = []\<rparr>"

text \<open>
  \<^verbatim>\<open>streamHandler\<close>: what it returns or throws, and the texts it passed to the sink.
  Whatever is thrown inside \<^verbatim>\<open>try\<close> (by the stream, the extractor or the sink) is
  caught; what the \<^verbatim>\<open>catch\<close> block itself throws leaves the function.
\<close>

definition streamHandler ::
  "int \<Rightarrow> (nat \<Rightarrow> int) \<Rightarrow> 'a stream \<Rightarrow> ('a \<Rightarrow> exn + string option) \<Rightarrow> sink option
     \<Rightarrow> (exn + string) \<times> string list" where
  "streamHandler min_interval clock stream extract onStream =
     (case consume min_interval clock extract onStream (initial clock) (yields stream) of
        (thrown, st) \<Rightarrow>
          (let caught = (case thrown of Some e \<Rightarrow> Some e | None \<Rightarrow> raises stream)
           in case caught of
                None \<Rightarrow> (Inr (stripThinkingContent (contentFull st)), sent st)
              | Some e \<Rightarrow>
                  (case message e of
                     Inl raised \<Rightarrow> (Inl raised, sent st)
                   | Inr m \<Rightarrow>
                       (Inr (stripThinkingContent (contentFull st @ error_prefix @ m)),
                        sent st))))"

section \<open>mapResponseToAnswer\<close>

text \<open>
  How a call ends. The extractors are declared to answer \<^verbatim>\<open>string | null\<close>. Where one
  answers with a truthy value that is not a string and the code goes on to use it as a
  text (as the message of an \<^verbatim>\<open>Error\<close>, or as a part of the streamed text), what
  JavaScript's conversions make of it is not modelled: the call ends \<open>Unmodelled\<close>. For a
  stream this is decided for all its frames at once, \<open>typed\<close> saying which answers are
  of the declared type or falsy; \<open>text_part\<close> then reads such an answer as the text part
  it is (a falsy one is skipped by line 65 whatever it is).
\<close>

datatype outcome = Returns string | Throws exn | Unmodelled

definition typed :: "jsval \<Rightarrow> bool" where
  "typed v = (case v of Some (JStr s) \<Rightarrow> True | other \<Rightarrow> \<not> truthy v)"

definition text_part :: "exn + jsval \<Rightarrow> exn + string option" where
  "text_part r =
     (case r of
        Inl e \<Rightarrow> Inl e
      | Inr (Some (JStr s)) \<Rightarrow> Inr (Some s)
      | Inr other \<Rightarrow> Inr None)"

text \<open>\<^verbatim>\<open>f?.(x)\<close> for an optional function \<open>f\<close>.\<close>

definition opt_call :: "extractor option \<Rightarrow> json \<Rightarrow> exn + jsval" where
  "opt_call f x = (case f of None \<Rightarrow> Inr None | Some g \<Rightarrow> g x)"

text \<open>
  \<^verbatim>\<open>f!(x)\<close>: the assertion does nothing at run time, and calling an absent function throws.
\<close>

definition must_call :: "extractor option \<Rightarrow> json \<Rightarrow> exn + jsval" where
  "must_call f x = (case f of None \<Rightarrow> Inl type_error | Some g \<Rightarrow> g x)"

text \<open>
  Lines 110 to 112, given what the two calls of the error extractor answer: \<open>Some\<close> of
  how the call ends there, or \<open>None\<close> when it goes on to the full-content extractor.
\<close>

definition raise_extracted :: "exn + jsval \<Rightarrow> exn + jsval \<Rightarrow> outcome option" where
  "raise_extracted first second =
     (case first of
        Inl e \<Rightarrow> Some (Throws e)
      | Inr v \<Rightarrow>
          if truthy v then
            (case second of
               Inl e \<Rightarrow> Some (Throws e)
             | Inr w \<Rightarrow>
                 if truthy w then
                   (case w of
                      Some (JStr m) \<Rightarrow> Some (Throws (Throw Error m))
                    | other \<Rightarrow> Some Unmodelled)
                 else Some (Throws (Throw Error ''Unknown error'')))
          else None)"

text \<open>
  Line 114. A truthy value that is not a string has no method \<^verbatim>\<open>replace\<close>, so
  \<^verbatim>\<open>stripThinkingContent\<close> throws on it.
\<close>

definition full_answer :: "exn + jsval \<Rightarrow> outcome" where
  "full_answer r =
     (case r of
        Inl e \<Rightarrow> Throws e
      | Inr v \<Rightarrow>
          if truthy v then
            (case v of
               Some (JStr s) \<Rightarrow> Returns (stripThinkingContent s)
             | other \<Rightarrow> Throws type_error)
          else Returns (stripThinkingContent []))"

definition mapResponseToAnswer ::
  "(response \<Rightarrow> controller \<Rightarrow> json stream) \<Rightarrow> int \<Rightarrow> (nat \<Rightarrow> int)
     \<Rightarrow> response \<Rightarrow> controller option \<Rightarrow> options option \<Rightarrow> sink option
     \<Rightarrow> outcome \<times> string list" where
  "mapResponseToAnswer new_Stream min_interval clock resp ctl options0 onStream =
     (let options1 = fixOpenAICompatibleOptions new_Stream options0
      in if onStream \<noteq> None \<and> ok resp \<and> isEventStreamResponse resp then
           (case (case streamBuilder options1 of
                    None \<Rightarrow> Inr None
                  | Some build \<Rightarrow>
                      build resp (case ctl of Some c \<Rightarrow> c | None \<Rightarrow> new_AbortController)) of
              Inl e \<Rightarrow> (Throws e, [])
            | Inr None \<Rightarrow> (Throws (Throw Error ''Stream builder error''), [])
            | Inr (Some stream) \<Rightarrow>
                if list_all (\<lambda>part. case must_call (contentExtractor options1) part of
                                       Inl e \<Rightarrow> True
                                     | Inr v \<Rightarrow> typed v) (yields stream)
                then
                  (case streamHandler min_interval clock stream
                          (\<lambda>part. text_part (must_call (contentExtractor options1) part))
                          onStream of
                     (Inr answer, texts) \<Rightarrow> (Returns answer, texts)
                   | (Inl e, texts) \<Rightarrow> (Throws e, texts))
                else (Unmodelled, []))
         else if \<not> isJsonResponse resp then (Throws (Throw Error (statusText resp)), [])
         else
           (case json_result resp of
              Inl e \<Rightarrow> (Throws e, [])
            | Inr result \<Rightarrow>
                if \<not> truthy (Some result) then (Throws (Throw Error ''Empty response''), [])
                else
                  (case raise_extracted (opt_call (errorExtractor options1) result)
                          (opt_call (errorExtractor options1) result) of
                     Some ended \<Rightarrow> (ended, [])
                   | None \<Rightarrow>
                       (full_answer (opt_call (fullContentExtractor options1) result), []))))"

section \<open>requestChatCompletions\<close>

text \<open>
  The one-shot timer of lines 121 to 134 after the call has settled: never scheduled,
  still pending (it will fire), cleared by \<^verbatim>\<open>clearTimeout\<close>, or already fired.
\<close>

datatype timer = NotScheduled | Pending | Cleared | Fired

text \<open>
  What \<^verbatim>\<open>fetch\<close> does with the request when nothing aborts it: after \<open>latency\<close>
  milliseconds it resolves with a response or rejects. \<open>on_abort\<close> is what it rejects
  with when the signal aborts it first.
\<close>

record transport =
  latency :: int
  settles :: "exn + response"
  on_abort :: exn

text \<open>
  \<open>timeout\<close> is \<^verbatim>\<open>ENV.CHAT_COMPLETE_API_TIMEOUT\<close>. The timer fires, and aborts the
  request, when \<open>timeout\<close> milliseconds pass before \<^verbatim>\<open>fetch\<close> settles. A rejected
  \<^verbatim>\<open>await fetch(...)\<close> leaves the function at line 126; \<^verbatim>\<open>clearTimeout\<close> at line 133
  runs only after \<^verbatim>\<open>fetch\<close> has resolved. The result is how the call ends, the
  texts passed to the sink, and the state of the timer then.
\<close>

definition requestChatCompletions ::
  "(response \<Rightarrow> controller \<Rightarrow> json stream) \<Rightarrow> int \<Rightarrow> (nat \<Rightarrow> int) \<Rightarrow> int
     \<Rightarrow> transport \<Rightarrow> sink option \<Rightarrow> options option
     \<Rightarrow> (outcome \<times> string list) \<times> timer" where
  "requestChatCompletions new_Stream min_interval clock timeout fetch onStream options0 =
     (let timeoutID = (if timeout > 0 then Pending else NotScheduled)
      in if timeout > 0 \<and> timeout \<le> latency fetch then
           ((Throws (on_abort fetch), []), Fired)
         else
           (case settles fetch of
              Inl e \<Rightarrow> ((Throws e, []), timeoutID)
            | Inr resp \<Rightarrow>
                (mapResponseToAnswer new_Stream min_interval clock resp
                   (Some new_AbortController) options0 onStream,
                 if timeoutID = Pending then Cleared else timeoutID)))"

section \<open>Example inputs\<close>

text \<open>
  Values the statements below are tried on: the body
  \<^verbatim>\<open>{"choices":[{"message":{"content": c}}]}\<close>, a successful JSON response with a given
  parsed body, a response that is not \<^verbatim>\<open>ok\<close> and whose content type names both an event
  stream and JSON, a stream class that yields no frame, and a sink that always resolves.
\<close>

definition openai_body :: "json \<Rightarrow> json" where
  "openai_body c = JObj [(''choices'', JArr [JObj [(''message'', JObj [(''content'', c)])]])]"

definition json_response :: "json \<Rightarrow> response" where
  "json_response body = \<lparr>ok = True, statusText = ''OK'',
     content_type = Some ''application/json'', json_result = Inr body\<rparr>"

definition both_types_response :: response where
  "both_types_response = \<lparr>ok = False, statusText = ''Bad Gateway'',
     content_type = Some ''text/event-stream, application/json'',
     json_result = Inr (openai_body (JStr ''hi''))\<rparr>"

definition no_frames :: "response \<Rightarrow> controller \<Rightarrow> json stream" where
  "no_frames r c = \<lparr>yields = [], raises = None\<rparr>"

definition quiet_sink :: sink where
  "quiet_sink history t = None"

text \<open>
  The text a frame adds to the accumulated answer: what the extractor yields for it, or
  nothing when the extractor yields \<^verbatim>\<open>null\<close> or throws.
\<close>

definition delta_text :: "('a \<Rightarrow> exn + string option) \<Rightarrow> 'a \<Rightarrow> string" where
  "delta_text extract part = (case extract part of Inr (Some t) \<Rightarrow> t | other \<Rightarrow> [])"

text \<open>
  Two sequences of ten deltas of ten characters each: one that opens a thinking block,
  and one of plain digits.
\<close>

definition thinking_frames :: "string list" where
  "thinking_frames =
     [''<think>Let'', ''s compute '', ''the answer'', '' step by s'', ''tep. First'',
      '', note tha'', ''t 6 * 7 = '', ''42, so the'', '' result is'', '' 42.</thin'']"

definition digit_frames :: "string list" where
  "digit_frames =
     [''0123456789'', ''0123456789'', ''0123456789'', ''0123456789'', ''0123456789'',
      ''0123456789'', ''0123456789'', ''0123456789'', ''0123456789'', ''0123456789'']"

text \<open>
  A text holds an opening tag, or a closing tag, when one of the two forms of the tag
  is a substring of it.
\<close>

definition has_open :: "string \<Rightarrow> bool" where
  "has_open s = (js_includes s ''<think>'' \<or> js_includes s ''<thinking>'')"

definition has_close :: "string \<Rightarrow> bool" where
  "has_close s = (js_includes s ''</think>'' \<or> js_includes s ''</thinking>'')"

section \<open>stripThinkingContent: the three phases\<close>

lemma tag_len_None_iff:
  "tag_len lead s = None \<longleftrightarrow> \<not> prefix (lead @ ''ing>'') s \<and> \<not> prefix (lead @ ''>'') s"
  by (simp add: tag_len_def)

lemma search_open_None_leads:
  "search_open s = None \<longleftrightarrow>
     \<not> js_includes s (open_lead @ ''>'') \<and> \<not> js_includes s (open_lead @ ''ing>'')"
  by (induction s) (auto simp: tag_len_None_iff)

lemma find_close_None_leads:
  "find_close s = None \<longleftrightarrow>
     \<not> js_includes s (close_lead @ ''>'') \<and> \<not> js_includes s (close_lead @ ''ing>'')"
proof (induction s)
  case Nil
  then show ?case by simp
next
  case (Cons c cs)
  have "find_close (c # cs) = None \<longleftrightarrow>
      tag_len close_lead (c # cs) = None \<and> find_close cs = None"
    by (simp split: option.splits)
  with Cons.IH show ?case by (auto simp: tag_len_None_iff)
qed

lemma search_open_None_iff: "search_open s = None \<longleftrightarrow> \<not> has_open s"
proof -
  have "open_lead @ ''>'' = ''<think>''" "open_lead @ ''ing>'' = ''<thinking>''"
    by (simp_all add: open_lead_def)
  then show ?thesis by (simp only: search_open_None_leads has_open_def de_Morgan_disj)
qed

lemma find_close_None_iff: "find_close s = None \<longleftrightarrow> \<not> has_close s"
proof -
  have "close_lead @ ''>'' = ''</think>''" "close_lead @ ''ing>'' = ''</thinking>''"
    by (simp_all add: close_lead_def)
  then show ?thesis by (simp only: find_close_None_leads has_close_def de_Morgan_disj)
qed

lemma not_straddling:
  assumes "p \<noteq> []" and "CHR ''<'' \<notin> set (tl w)" and "prefix w (p @ CHR ''<'' # q)"
  shows "prefix w p"
proof -
  from assms(3) consider "prefix w p" | us where "w = p @ us" "prefix us (CHR ''<'' # q)"
    by (auto simp: prefix_append)
  then show ?thesis
  proof cases
    case 1
    then show ?thesis .
  next
    case 2
    show ?thesis
    proof (cases us)
      case Nil
      with 2 show ?thesis by simp
    next
      case (Cons u us')
      with 2 have "u = CHR ''<''" by simp
      with 2 Cons assms(1) have "CHR ''<'' \<in> set (tl w)" by (cases p) simp_all
      with assms(2) show ?thesis by simp
    qed
  qed
qed

lemma tag_len_before_lt:
  assumes "p \<noteq> []" and "lead = open_lead \<or> lead = close_lead"
  shows "tag_len lead (p @ CHR ''<'' # q) = tag_len lead p"
proof -
  have "prefix w (p @ CHR ''<'' # q) \<longleftrightarrow> prefix w p"
    if "CHR ''<'' \<notin> set (tl w)" for w
    using not_straddling [OF assms(1) that] by auto
  moreover have "CHR ''<'' \<notin> set (tl (lead @ ''ing>''))" "CHR ''<'' \<notin> set (tl (lead @ ''>''))"
    using assms(2) by (auto simp: open_lead_def close_lead_def)
  ultimately show ?thesis by (simp add: tag_len_def)
qed

lemma search_open_append_lt:
  "search_open pre = None \<Longrightarrow>
   search_open (pre @ CHR ''<'' # q) = map_option ((+) (length pre)) (search_open (CHR ''<'' # q))"
proof (induction pre)
  case Nil
  then show ?case by (simp add: option.map_ident)
next
  case (Cons c pre)
  from Cons.prems have none: "tag_len open_lead (c # pre) = None" and rest: "search_open pre = None"
    by (auto split: if_splits)
  have "tag_len open_lead ((c # pre) @ CHR ''<'' # q) = tag_len open_lead (c # pre)"
    by (rule tag_len_before_lt) simp_all
  with none have "tag_len open_lead ((c # pre) @ CHR ''<'' # q) = None" by simp
  with Cons.IH [OF rest] show ?case by (simp add: option.map_comp comp_def)
qed

lemma remove_closed_append_lt:
  "search_open pre = None \<Longrightarrow>
   remove_closed (pre @ CHR ''<'' # q) = pre @ remove_closed (CHR ''<'' # q)"
proof (induction pre)
  case Nil
  then show ?case by simp
next
  case (Cons c pre)
  from Cons.prems have none: "tag_len open_lead (c # pre) = None" and rest: "search_open pre = None"
    by (auto split: if_splits)
  have "tag_len open_lead ((c # pre) @ CHR ''<'' # q) = tag_len open_lead (c # pre)"
    by (rule tag_len_before_lt) simp_all
  with none have "tag_len open_lead ((c # pre) @ CHR ''<'' # q) = None" by simp
  then have "match_span (c # pre @ CHR ''<'' # q) = None" by (simp add: match_span_def)
  with Cons.IH [OF rest] show ?case by simp
qed

lemma find_close_append_lt:
  "find_close body = None \<Longrightarrow>
   find_close (body @ CHR ''<'' # q) = map_option ((+) (length body)) (find_close (CHR ''<'' # q))"
proof (induction body)
  case Nil
  then show ?case by (simp add: option.map_ident)
next
  case (Cons c body)
  from Cons.prems have none: "tag_len close_lead (c # body) = None" and rest: "find_close body = None"
    by (auto split: option.splits)
  have "tag_len close_lead ((c # body) @ CHR ''<'' # q) = tag_len close_lead (c # body)"
    by (rule tag_len_before_lt) simp_all
  with none have "tag_len close_lead ((c # body) @ CHR ''<'' # q) = None" by simp
  with Cons.IH [OF rest] show ?case by (simp add: option.map_comp comp_def)
qed

lemma tag_len_open:
  "otag \<in> {''<think>'', ''<thinking>''} \<Longrightarrow> tag_len open_lead (otag @ r) = Some (length otag)"
  by (auto simp: tag_len_def open_lead_def)

lemma tag_len_close:
  "ctag \<in> {''</think>'', ''</thinking>''} \<Longrightarrow> tag_len close_lead (ctag @ r) = Some (length ctag)"
  by (auto simp: tag_len_def close_lead_def)

lemma open_tag_shape:
  "otag \<in> {''<think>'', ''<thinking>''} \<Longrightarrow> \<exists>u. otag = CHR ''<'' # u \<and> CHR ''<'' \<notin> set u"
  by auto

lemma close_tag_shape:
  "ctag \<in> {''</think>'', ''</thinking>''} \<Longrightarrow> \<exists>u. ctag = CHR ''<'' # u"
  by auto

lemma find_close_at_tag:
  assumes "ctag \<in> {''</think>'', ''</thinking>''}"
  shows "find_close (ctag @ post) = Some (length ctag)"
proof -
  from assms obtain u where u: "ctag = CHR ''<'' # u" using close_tag_shape by blast
  have "tag_len close_lead (ctag @ post) = Some (length ctag)"
    using assms by (rule tag_len_close)
  then show ?thesis by (simp add: u)
qed

lemma match_span_whole:
  assumes "otag \<in> {''<think>'', ''<thinking>''}" and "ctag \<in> {''</think>'', ''</thinking>''}"
    and "find_close body = None"
  shows "match_span (otag @ body @ ctag @ post) = Some (length otag + length body + length ctag)"
proof -
  from assms(2) obtain u where u: "ctag = CHR ''<'' # u" using close_tag_shape by blast
  have o: "tag_len open_lead (otag @ body @ ctag @ post) = Some (length otag)"
    using assms(1) by (rule tag_len_open)
  have "find_close (body @ CHR ''<'' # u @ post)
      = map_option ((+) (length body)) (find_close (CHR ''<'' # u @ post))"
    using assms(3) by (rule find_close_append_lt)
  moreover have "find_close (ctag @ post) = Some (length ctag)"
    using assms(2) by (rule find_close_at_tag)
  ultimately have "find_close (body @ ctag @ post) = Some (length body + length ctag)"
    by (simp add: u)
  with o show ?thesis by (simp add: match_span_def)
qed

lemma remove_closed_at_span:
  assumes "otag \<in> {''<think>'', ''<thinking>''}" and "ctag \<in> {''</think>'', ''</thinking>''}"
    and "find_close body = None"
  shows "remove_closed (otag @ body @ ctag @ post) = remove_closed post"
proof -
  from assms(1) obtain u where u: "otag = CHR ''<'' # u" using open_tag_shape by blast
  have "match_span (otag @ body @ ctag @ post) = Some (length otag + length body + length ctag)"
    using assms by (rule match_span_whole)
  then have "remove_closed (otag @ body @ ctag @ post)
      = remove_closed (drop (length u + length body + length ctag) (u @ body @ ctag @ post))"
    by (simp add: u)
  then show ?thesis by simp
qed

lemma remove_closed_span:
  assumes "search_open pre = None" and "otag \<in> {''<think>'', ''<thinking>''}"
    and "ctag \<in> {''</think>'', ''</thinking>''}" and "find_close body = None"
  shows "remove_closed (pre @ otag @ body @ ctag @ post) = pre @ remove_closed post"
proof -
  from assms(2) obtain u where u: "otag = CHR ''<'' # u" using open_tag_shape by blast
  have "remove_closed (pre @ CHR ''<'' # u @ body @ ctag @ post)
      = pre @ remove_closed (CHR ''<'' # u @ body @ ctag @ post)"
    using assms(1) by (rule remove_closed_append_lt)
  moreover have "remove_closed (otag @ body @ ctag @ post) = remove_closed post"
    using assms(2,3,4) by (rule remove_closed_at_span)
  ultimately show ?thesis by (simp add: u)
qed

lemma find_close_drop: "find_close s = None \<Longrightarrow> find_close (drop n s) = None"
proof (induction s arbitrary: n)
  case Nil
  then show ?case by simp
next
  case (Cons c cs)
  then have "find_close cs = None" by (simp split: option.splits)
  with Cons show ?case by (cases n) simp_all
qed

lemma remove_closed_no_close: "find_close s = None \<Longrightarrow> remove_closed s = s"
proof (induction s)
  case Nil
  then show ?case by simp
next
  case (Cons c cs)
  then have rest: "find_close cs = None" by (simp split: option.splits)
  have "find_close (drop n (c # cs)) = None" for n
    using Cons.prems by (rule find_close_drop)
  then have "match_span (c # cs) = None" by (simp add: match_span_def split: option.splits)
  with Cons.IH [OF rest] show ?case by simp
qed

lemma remove_closed_no_lt:
  "CHR ''<'' \<notin> set u \<Longrightarrow> remove_closed (u @ r) = u @ remove_closed r"
proof (induction u)
  case Nil
  then show ?case by simp
next
  case (Cons c u)
  then have "tag_len open_lead (c # u @ r) = None" by (auto simp: tag_len_def open_lead_def)
  then have "match_span (c # u @ r) = None" by (simp add: match_span_def)
  with Cons show ?case by simp
qed

lemma remove_closed_unclosed:
  assumes "search_open pre = None" and "otag \<in> {''<think>'', ''<thinking>''}"
    and "find_close rest = None"
  shows "remove_closed (pre @ otag @ rest) = pre @ otag @ rest"
proof -
  from assms(2) obtain u where u: "otag = CHR ''<'' # u" and nlt: "CHR ''<'' \<notin> set u"
    using open_tag_shape by blast
  have "tag_len open_lead (otag @ rest) = Some (length otag)"
    using assms(2) by (rule tag_len_open)
  then have "match_span (otag @ rest) = None"
    using assms(3) by (simp add: match_span_def)
  then have "remove_closed (otag @ rest) = CHR ''<'' # remove_closed (u @ rest)"
    by (simp add: u)
  also have "remove_closed (u @ rest) = u @ remove_closed rest"
    using nlt by (rule remove_closed_no_lt)
  also have "remove_closed rest = rest"
    using assms(3) by (rule remove_closed_no_close)
  finally have at: "remove_closed (otag @ rest) = otag @ rest" by (simp add: u)
  have "remove_closed (pre @ CHR ''<'' # u @ rest) = pre @ remove_closed (CHR ''<'' # u @ rest)"
    using assms(1) by (rule remove_closed_append_lt)
  with at show ?thesis by (simp add: u)
qed

lemma remove_closed_no_open: "search_open s = None \<Longrightarrow> remove_closed s = s"
proof (induction s)
  case Nil
  then show ?case by simp
next
  case (Cons c cs)
  then have "tag_len open_lead (c # cs) = None" and rest: "search_open cs = None"
    by (auto split: if_splits)
  then have "match_span (c # cs) = None" by (simp add: match_span_def)
  with Cons.IH [OF rest] show ?case by simp
qed

lemma cut_at_open_tag:
  assumes "search_open pre = None" and "otag \<in> {''<think>'', ''<thinking>''}"
  shows "cut_at_open (pre @ otag @ rest) = pre"
proof -
  from assms(2) obtain u where u: "otag = CHR ''<'' # u" using open_tag_shape by blast
  have "tag_len open_lead (otag @ rest) = Some (length otag)"
    using assms(2) by (rule tag_len_open)
  then have "search_open (CHR ''<'' # u @ rest) = Some 0" by (simp add: u)
  moreover have "search_open (pre @ CHR ''<'' # u @ rest)
      = map_option ((+) (length pre)) (search_open (CHR ''<'' # u @ rest))"
    using assms(1) by (rule search_open_append_lt)
  ultimately show ?thesis by (simp add: cut_at_open_def u)
qed

lemma cut_at_open_no_open: "search_open s = None \<Longrightarrow> cut_at_open s = s"
  by (simp add: cut_at_open_def)

lemma tag_len_take: "tag_len lead s = None \<Longrightarrow> tag_len lead (take n s) = None"
proof -
  have "prefix w (take n s) \<Longrightarrow> prefix w s" for w
    using take_is_prefix [of n s] by (blast intro: prefix_order.trans)
  then show "tag_len lead s = None \<Longrightarrow> tag_len lead (take n s) = None"
    by (auto simp: tag_len_None_iff)
qed

lemma search_open_take: "search_open s = Some i \<Longrightarrow> search_open (take i s) = None"
proof (induction s arbitrary: i)
  case Nil
  then show ?case by simp
next
  case (Cons c cs)
  show ?case
  proof (cases "tag_len open_lead (c # cs) = None")
    case False
    with Cons.prems have "i = 0" by simp
    then show ?thesis by simp
  next
    case True
    with Cons.prems obtain j where j: "search_open cs = Some j" and i: "i = Suc j" by auto
    have "tag_len open_lead (take i (c # cs)) = None" using True by (rule tag_len_take)
    with Cons.IH [OF j] i show ?thesis by simp
  qed
qed

lemma search_open_cut: "search_open (cut_at_open s) = None"
  by (cases "search_open s") (simp_all add: cut_at_open_def search_open_take)

lemma search_open_tl: "search_open (c # cs) = None \<Longrightarrow> search_open cs = None"
  by (simp split: if_splits)

lemma search_open_dropWhile: "search_open s = None \<Longrightarrow> search_open (dropWhile P s) = None"
  by (induction s) (auto dest: search_open_tl simp del: search_open.simps)

lemma search_open_strip: "search_open (stripThinkingContent t) = None"
  by (simp add: stripThinkingContent_def trimStart_def search_open_dropWhile search_open_cut)

lemma strip_fixed:
  "search_open s = None \<Longrightarrow> (\<forall>c cs. s = c # cs \<longrightarrow> \<not> is_space c) \<Longrightarrow> stripThinkingContent s = s"
proof -
  assume none: "search_open s = None" and head: "\<forall>c cs. s = c # cs \<longrightarrow> \<not> is_space c"
  have "remove_closed s = s" using none by (rule remove_closed_no_open)
  moreover have "cut_at_open s = s" using none by (rule cut_at_open_no_open)
  moreover have "dropWhile is_space s = s" using head by (cases s) simp_all
  ultimately show ?thesis by (simp add: stripThinkingContent_def trimStart_def)
qed

lemma trimStart_head: "trimStart s = c # cs \<Longrightarrow> \<not> is_space c"
  unfolding trimStart_def by (metis dropWhile_eq_Cons_conv)

text \<open>
  Claim C1, as amended. \<open>stripThinkingContent\<close> runs three phases in this order: it
  removes the closed spans, cuts the text at the first opening tag that is left, and
  strips leading white space. A span runs from the leftmost opening tag (\<^verbatim>\<open><think>\<close> or
  \<^verbatim>\<open><thinking>\<close>) to the nearest closing tag after it, of either form (\<^verbatim>\<open></think>\<close> or
  \<^verbatim>\<open></thinking>\<close>), so that \<^verbatim>\<open><think>\<close> closed by \<^verbatim>\<open></thinking>\<close> is a span too; it is removed
  and the removal goes on in the text after it. An opening tag with no closing tag of
  either form after it stays, and the second phase cuts the text right before the first
  opening tag left. A text with no opening tag passes both phases unchanged. The third
  phase removes the longest prefix of white space and nothing else. The tags are matched
  case-sensitively. In particular \<^verbatim>\<open>a<think>secret</think>b\<close> becomes \<^verbatim>\<open>ab\<close>,
  \<^verbatim>\<open>visible<think>hidden\<close> becomes \<^verbatim>\<open>visible\<close> and \<^verbatim>\<open>x<think>y</thinking>z\<close> becomes \<^verbatim>\<open>xz\<close>.
\<close>

theorem stripThinkingContent_phases:
  "stripThinkingContent t = trimStart (cut_at_open (remove_closed t))
   \<and> (\<not> has_open pre \<longrightarrow> otag \<in> {''<think>'', ''<thinking>''} \<longrightarrow>
        ctag \<in> {''</think>'', ''</thinking>''} \<longrightarrow> \<not> has_close body \<longrightarrow>
        remove_closed (pre @ otag @ body @ ctag @ post) = pre @ remove_closed post)
   \<and> (\<not> has_open pre \<longrightarrow> otag \<in> {''<think>'', ''<thinking>''} \<longrightarrow> \<not> has_close rest \<longrightarrow>
        remove_closed (pre @ otag @ rest) = pre @ otag @ rest)
   \<and> (\<not> has_open s \<longrightarrow> remove_closed s = s \<and> cut_at_open s = s)
   \<and> (\<not> has_open pre \<longrightarrow> otag \<in> {''<think>'', ''<thinking>''} \<longrightarrow>
        cut_at_open (pre @ otag @ rest) = pre)
   \<and> s = takeWhile is_space s @ trimStart s
   \<and> (\<forall>c cs. trimStart s = c # cs \<longrightarrow> \<not> is_space c)
   \<and> stripThinkingContent ''a<think>secret</think>b'' = ''ab''
   \<and> stripThinkingContent ''visible<think>hidden'' = ''visible''
   \<and> stripThinkingContent ''  x'' = ''x''
   \<and> stripThinkingContent ''x  '' = ''x  ''
   \<and> stripThinkingContent ''<THINK>x</THINK>'' = ''<THINK>x</THINK>''
   \<and> stripThinkingContent ''x<think>y</thinking>z'' = ''xz''"
proof (intro conjI impI allI)
  show "stripThinkingContent t = trimStart (cut_at_open (remove_closed t))"
    by (simp add: stripThinkingContent_def)
  show "s = takeWhile is_space s @ trimStart s"
    by (simp add: trimStart_def)
  show "trimStart s = c # cs \<Longrightarrow> \<not> is_space c" for c cs
    by (rule trimStart_head)
  show "stripThinkingContent ''a<think>secret</think>b'' = ''ab''" by code_simp
  show "stripThinkingContent ''visible<think>hidden'' = ''visible''" by code_simp
  show "stripThinkingContent ''  x'' = ''x''" by code_simp
  show "stripThinkingContent ''x  '' = ''x  ''" by code_simp
  show "stripThinkingContent ''<THINK>x</THINK>'' = ''<THINK>x</THINK>''" by code_simp
  show "stripThinkingContent ''x<think>y</thinking>z'' = ''xz''" by code_simp
next
  assume a: "\<not> has_open pre" "otag \<in> {''<think>'', ''<thinking>''}"
    "ctag \<in> {''</think>'', ''</thinking>''}" "\<not> has_close body"
  then have "search_open pre = None" and "find_close body = None"
    by (simp_all add: search_open_None_iff find_close_None_iff)
  then show "remove_closed (pre @ otag @ body @ ctag @ post) = pre @ remove_closed post"
    using a(2,3) by (intro remove_closed_span)
next
  assume a: "\<not> has_open pre" "otag \<in> {''<think>'', ''<thinking>''}" "\<not> has_close rest"
  then have "search_open pre = None" and "find_close rest = None"
    by (simp_all add: search_open_None_iff find_close_None_iff)
  then show "remove_closed (pre @ otag @ rest) = pre @ otag @ rest"
    using a(2) by (intro remove_closed_unclosed)
next
  assume "\<not> has_open s"
  then have none: "search_open s = None" by (simp add: search_open_None_iff)
  from none show "remove_closed s = s" by (rule remove_closed_no_open)
  from none show "cut_at_open s = s" by (rule cut_at_open_no_open)
next
  assume a: "\<not> has_open pre" "otag \<in> {''<think>'', ''<thinking>''}"
  then have "search_open pre = None" by (simp add: search_open_None_iff)
  then show "cut_at_open (pre @ otag @ rest) = pre"
    using a(2) by (rule cut_at_open_tag)
qed

text \<open>
  The claim as written fails where the two tags of a span differ in form. With only
  \<^verbatim>\<open><think>...</think>\<close> and \<^verbatim>\<open><thinking>...</thinking>\<close> as spans, \<^verbatim>\<open>x<think>y</thinking>z\<close> would
  hold no span and be cut to \<^verbatim>\<open>x\<close>, and \<^verbatim>\<open><think>a</thinking>b</think>c\<close> would lose the
  span up to \<^verbatim>\<open></think>\<close> and become \<^verbatim>\<open>c\<close>.
\<close>

theorem stripThinkingContent_phases_counterexample:
  "stripThinkingContent ''x<think>y</thinking>z'' = ''xz''
   \<and> stripThinkingContent ''x<think>y</thinking>z'' \<noteq> ''x''
   \<and> stripThinkingContent ''<think>a</thinking>b</think>c'' = ''b</think>c''
   \<and> stripThinkingContent ''<think>a</thinking>b</think>c'' \<noteq> ''c''"
  by code_simp

theorem stripThinkingContent_phases_witness:
  "remove_closed ''a <thinking>one</think>b<think>two</thinking> c'' = ''a b c''
   \<and> remove_closed ''seen <think>not closed'' = ''seen <think>not closed''
   \<and> cut_at_open ''seen <think>not closed'' = ''seen ''
   \<and> stripThinkingContent ''a<think>secret</think>b'' = ''ab''"
proof -
  note t = stripThinkingContent_phases
  have no: "\<not> has_open ''a ''" "\<not> has_open ''b''" "\<not> has_open '' c''" "\<not> has_open ''seen ''"
    by (simp_all add: has_open_def)
  have nc: "\<not> has_close ''one''" "\<not> has_close ''two''" "\<not> has_close ''not closed''"
    by (simp_all add: has_close_def)
  have 1: "remove_closed (''a '' @ ''<thinking>'' @ ''one'' @ ''</think>''
             @ ''b<think>two</thinking> c'') = ''a '' @ remove_closed ''b<think>two</thinking> c''"
    using t [THEN conjunct2, THEN conjunct1,
             of "''a ''" "''<thinking>''" "''</think>''" "''one''" "''b<think>two</thinking> c''"]
      no nc by simp
  have 2: "remove_closed (''b'' @ ''<think>'' @ ''two'' @ ''</thinking>'' @ '' c'')
      = ''b'' @ remove_closed '' c''"
    using t [THEN conjunct2, THEN conjunct1,
             of "''b''" "''<think>''" "''</thinking>''" "''two''" "'' c''"]
      no nc by simp
  have 3: "remove_closed '' c'' = '' c''"
    using t [THEN conjunct2, THEN conjunct2, THEN conjunct2, THEN conjunct1, of "'' c''"] no
    by simp
  have 4: "remove_closed (''seen '' @ ''<think>'' @ ''not closed'')
      = ''seen '' @ ''<think>'' @ ''not closed''"
    using t [THEN conjunct2, THEN conjunct2, THEN conjunct1,
             of "''seen ''" "''<think>''" "''not closed''"] no nc
    by simp
  have 5: "cut_at_open (''seen '' @ ''<think>'' @ ''not closed'') = ''seen ''"
    using t [THEN conjunct2, THEN conjunct2, THEN conjunct2, THEN conjunct2, THEN conjunct1,
             of "''seen ''" "''<think>''" "''not closed''"] no
    by simp
  have 6: "stripThinkingContent ''a<think>secret</think>b'' = ''ab''"
    using t by blast
  from 1 2 3 4 5 6 show ?thesis by simp
qed

text \<open>
  Claim C9. \<open>stripThinkingContent\<close> is idempotent: its result holds no opening tag and
  does not start with white space, and such a text is a fixed point.
\<close>

theorem stripThinkingContent_idempotent:
  "stripThinkingContent (stripThinkingContent t) = stripThinkingContent t
   \<and> \<not> has_open (stripThinkingContent t)
   \<and> (\<forall>c cs. stripThinkingContent t = c # cs \<longrightarrow> \<not> is_space c)"
proof (intro conjI)
  have none: "search_open (stripThinkingContent t) = None" by (rule search_open_strip)
  then show "\<not> has_open (stripThinkingContent t)" by (simp add: search_open_None_iff)
  show head: "\<forall>c cs. stripThinkingContent t = c # cs \<longrightarrow> \<not> is_space c"
    by (auto simp: stripThinkingContent_def dest: trimStart_head)
  from none head show "stripThinkingContent (stripThinkingContent t) = stripThinkingContent t"
    by (rule strip_fixed)
qed

theorem stripThinkingContent_idempotent_witness:
  "stripThinkingContent ''  a<think>x</think> b <thinking>rest'' = ''a b ''
   \<and> stripThinkingContent ''a b '' = ''a b ''
   \<and> \<not> has_open ''a b ''"
proof -
  have v: "stripThinkingContent ''  a<think>x</think> b <thinking>rest'' = ''a b ''"
    by code_simp
  from stripThinkingContent_idempotent [of "''  a<think>x</think> b <thinking>rest''"] v
  show ?thesis by simp
qed

section \<open>The response classifier is a case-insensitive substring match\<close>

lemma js_includes_iff: "js_includes s p \<longleftrightarrow> (\<exists>a b. s = a @ p @ b)"
proof (induction s)
  case Nil
  then show ?case by auto
next
  case (Cons c cs)
  show ?case
  proof
    assume "js_includes (c # cs) p"
    then consider "prefix p (c # cs)" | "js_includes cs p" by auto
    then show "\<exists>a b. c # cs = a @ p @ b"
    proof cases
      case 1
      then obtain b where "c # cs = p @ b" by (auto simp: prefix_def)
      then have "c # cs = [] @ p @ b" by simp
      then show ?thesis by blast
    next
      case 2
      with Cons.IH obtain a b where "cs = a @ p @ b" by blast
      then have "c # cs = (c # a) @ p @ b" by simp
      then show ?thesis by blast
    qed
  next
    assume "\<exists>a b. c # cs = a @ p @ b"
    then obtain a b where ab: "c # cs = a @ p @ b" by blast
    show "js_includes (c # cs) p"
    proof (cases a)
      case Nil
      with ab have "prefix p (c # cs)" by (simp add: prefix_def)
      then show ?thesis by simp
    next
      case (Cons x a')
      with ab have "cs = a' @ p @ b" by simp
      with Cons.IH have "js_includes cs p" by blast
      then show ?thesis by simp
    qed
  qed
qed

lemma includes_lower_iff:
  "js_includes (toLowerCase v) p \<longleftrightarrow> (\<exists>a m b. v = a @ m @ b \<and> toLowerCase m = p)"
proof
  assume "js_includes (toLowerCase v) p"
  then obtain a' b' where eq: "map lower_char v = a' @ p @ b'"
    by (auto simp: js_includes_iff toLowerCase_def)
  define a where "a = take (length a') v"
  define m where "m = take (length p) (drop (length a') v)"
  define b where "b = drop (length p) (drop (length a') v)"
  have "v = a @ m @ b" by (simp only: a_def m_def b_def append_take_drop_id)
  moreover have "map lower_char m = take (length p) (drop (length a') (map lower_char v))"
    by (simp add: m_def take_map drop_map)
  then have "toLowerCase m = p" by (simp add: eq toLowerCase_def)
  ultimately show "\<exists>a m b. v = a @ m @ b \<and> toLowerCase m = p" by blast
next
  assume "\<exists>a m b. v = a @ m @ b \<and> toLowerCase m = p"
  then obtain a m b where "v = a @ m @ b" and "toLowerCase m = p" by blast
  then have "toLowerCase v = toLowerCase a @ p @ toLowerCase b"
    by (simp add: toLowerCase_def)
  then show "js_includes (toLowerCase v) p"
    unfolding js_includes_iff by blast
qed

text \<open>
  Claim C7. \<open>isJsonResponse\<close> and \<open>isEventStreamResponse\<close> match the value of the
  content-type header case-insensitively: the first holds exactly when some substring
  of the value lower-cases to \<^verbatim>\<open>application/json\<close>, the second exactly when some
  substring lower-cases to \<^verbatim>\<open>application/stream+json\<close> or to \<^verbatim>\<open>text/event-stream\<close>. Both
  are false when the header is absent, and the value
  \<^verbatim>\<open>text/event-stream; charset=utf-8\<close> is an event stream and not JSON.
\<close>

theorem classifier_case_insensitive_substring:
  "(isJsonResponse resp \<longleftrightarrow>
      (\<exists>v a m b. content_type resp = Some v \<and> v = a @ m @ b
         \<and> toLowerCase m = ''application/json''))
   \<and> (isEventStreamResponse resp \<longleftrightarrow>
      (\<exists>v a m b. content_type resp = Some v \<and> v = a @ m @ b
         \<and> (toLowerCase m = ''application/stream+json''
              \<or> toLowerCase m = ''text/event-stream'')))
   \<and> (content_type resp = None \<longrightarrow> \<not> isJsonResponse resp \<and> \<not> isEventStreamResponse resp)
   \<and> (content_type resp = Some ''text/event-stream; charset=utf-8'' \<longrightarrow>
        isEventStreamResponse resp \<and> \<not> isJsonResponse resp)"
proof (intro conjI)
  show j: "isJsonResponse resp \<longleftrightarrow>
      (\<exists>v a m b. content_type resp = Some v \<and> v = a @ m @ b
         \<and> toLowerCase m = ''application/json'')"
    by (cases "content_type resp") (simp_all add: isJsonResponse_def includes_lower_iff)
  have nil: "\<not> js_includes [] ''application/stream+json''" "\<not> js_includes [] ''text/event-stream''"
    by simp_all
  show e: "isEventStreamResponse resp \<longleftrightarrow>
      (\<exists>v a m b. content_type resp = Some v \<and> v = a @ m @ b
         \<and> (toLowerCase m = ''application/stream+json''
              \<or> toLowerCase m = ''text/event-stream''))"
  proof (cases "content_type resp")
    case None
    then show ?thesis
      by (simp add: isEventStreamResponse_def event_stream_types_def)
  next
    case (Some v)
    then show ?thesis
      by (simp add: isEventStreamResponse_def event_stream_types_def includes_lower_iff) blast
  qed
  show "content_type resp = None \<longrightarrow> \<not> isJsonResponse resp \<and> \<not> isEventStreamResponse resp"
    by (simp add: isJsonResponse_def isEventStreamResponse_def event_stream_types_def)
  show "content_type resp = Some ''text/event-stream; charset=utf-8'' \<longrightarrow>
        isEventStreamResponse resp \<and> \<not> isJsonResponse resp"
  proof
    assume ct: "content_type resp = Some ''text/event-stream; charset=utf-8''"
    have l: "toLowerCase ''text/event-stream; charset=utf-8'' = ''text/event-stream; charset=utf-8''"
      by code_simp
    have "js_includes ''text/event-stream; charset=utf-8'' ''text/event-stream''" by simp
    moreover have "\<not> js_includes ''text/event-stream; charset=utf-8'' ''application/json''"
      by simp
    ultimately show "isEventStreamResponse resp \<and> \<not> isJsonResponse resp"
      using ct l by (simp add: isEventStreamResponse_def isJsonResponse_def event_stream_types_def)
  qed
qed

theorem classifier_witness:
  "isJsonResponse \<lparr>ok = True, statusText = ''OK'',
      content_type = Some ''Application/JSON; charset=UTF-8'', json_result = Inr JNull\<rparr>
   \<and> \<not> isEventStreamResponse \<lparr>ok = True, statusText = ''OK'',
      content_type = Some ''Application/JSON; charset=UTF-8'', json_result = Inr JNull\<rparr>
   \<and> isEventStreamResponse \<lparr>ok = True, statusText = ''OK'',
      content_type = Some ''text/event-stream; charset=utf-8'', json_result = Inr JNull\<rparr>
   \<and> \<not> isJsonResponse \<lparr>ok = True, statusText = ''OK'',
      content_type = Some ''text/event-stream; charset=utf-8'', json_result = Inr JNull\<rparr>
   \<and> \<not> isJsonResponse \<lparr>ok = True, statusText = ''OK'',
      content_type = None, json_result = Inr JNull\<rparr>
   \<and> \<not> isEventStreamResponse \<lparr>ok = True, statusText = ''OK'',
      content_type = None, json_result = Inr JNull\<rparr>"
proof -
  let ?r = "\<lambda>h. \<lparr>ok = True, statusText = ''OK'', content_type = h, json_result = Inr JNull\<rparr>"
  have 1: "isJsonResponse (?r (Some ''Application/JSON; charset=UTF-8''))"
    by code_simp
  have 2: "\<not> isEventStreamResponse (?r (Some ''Application/JSON; charset=UTF-8''))"
    by code_simp
  note c = classifier_case_insensitive_substring [THEN conjunct2, THEN conjunct2]
  have 3: "isEventStreamResponse (?r (Some ''text/event-stream; charset=utf-8''))
     \<and> \<not> isJsonResponse (?r (Some ''text/event-stream; charset=utf-8''))"
    using c [THEN conjunct2, of "?r (Some ''text/event-stream; charset=utf-8'')"] by simp
  have 4: "\<not> isJsonResponse (?r None) \<and> \<not> isEventStreamResponse (?r None)"
    using c [THEN conjunct1, of "?r None"] by simp
  from 1 2 3 4 show ?thesis by simp
qed

section \<open>The timer of requestChatCompletions\<close>

text \<open>
  Claim C3. With a positive timeout that has not passed when \<^verbatim>\<open>fetch\<close> settles, the
  timer is cleared when \<^verbatim>\<open>fetch\<close> resolves, but it is still pending when \<^verbatim>\<open>fetch\<close>
  rejects: the rejection leaves the function before \<^verbatim>\<open>clearTimeout\<close> is reached, and
  the timer fires later.
\<close>

theorem requestChatCompletions_timer_after_settling:
  "0 < timeout \<Longrightarrow> latency fetch < timeout \<Longrightarrow>
   snd (requestChatCompletions new_Stream min_interval clock timeout fetch onStream options0) =
     (case settles fetch of Inl e \<Rightarrow> Pending | Inr resp \<Rightarrow> Cleared)"
  by (simp add: requestChatCompletions_def split: sum.splits)

theorem requestChatCompletions_timer_witness:
  "snd (requestChatCompletions no_frames 0 (\<lambda>n. 0) 1000
          \<lparr>latency = 10, settles = Inl (Throw TypeError ''fetch failed''),
             on_abort = Throw AbortError ''aborted''\<rparr> None None) = Pending"
  using requestChatCompletions_timer_after_settling
    [of 1000 "\<lparr>latency = 10, settles = Inl (Throw TypeError ''fetch failed''),
                on_abort = Throw AbortError ''aborted''\<rparr>"
        no_frames 0 "\<lambda>n. 0" None None]
  by simp

section \<open>Defaulting the extractors\<close>

text \<open>
  Claim C8. \<open>fixOpenAICompatibleOptions\<close> is idempotent; for every input, \<^verbatim>\<open>null\<close>
  included, all four functions of its result are present; a function the caller
  supplied is kept as it is, and an absent one is replaced by the built-in default.
\<close>

theorem fixOpenAICompatibleOptions_defaulting:
  "fixOpenAICompatibleOptions new_Stream (Some (fixOpenAICompatibleOptions new_Stream given))
     = fixOpenAICompatibleOptions new_Stream given
   \<and> streamBuilder (fixOpenAICompatibleOptions new_Stream given) \<noteq> None
   \<and> contentExtractor (fixOpenAICompatibleOptions new_Stream given) \<noteq> None
   \<and> fullContentExtractor (fixOpenAICompatibleOptions new_Stream given) \<noteq> None
   \<and> errorExtractor (fixOpenAICompatibleOptions new_Stream given) \<noteq> None
   \<and> (\<forall>opts.
        streamBuilder (fixOpenAICompatibleOptions new_Stream (Some opts)) =
          (case streamBuilder opts of
             Some f \<Rightarrow> Some f
           | None \<Rightarrow> Some (\<lambda>r c. Inr (Some (new_Stream r c))))
      \<and> contentExtractor (fixOpenAICompatibleOptions new_Stream (Some opts)) =
          (case contentExtractor opts of
             Some f \<Rightarrow> Some f
           | None \<Rightarrow> Some default_contentExtractor)
      \<and> fullContentExtractor (fixOpenAICompatibleOptions new_Stream (Some opts)) =
          (case fullContentExtractor opts of
             Some f \<Rightarrow> Some f
           | None \<Rightarrow> Some default_fullContentExtractor)
      \<and> errorExtractor (fixOpenAICompatibleOptions new_Stream (Some opts)) =
          (case errorExtractor opts of
             Some f \<Rightarrow> Some f
           | None \<Rightarrow> Some default_errorExtractor))
   \<and> fixOpenAICompatibleOptions new_Stream None =
        \<lparr>streamBuilder = Some (\<lambda>r c. Inr (Some (new_Stream r c))),
         contentExtractor = Some default_contentExtractor,
         fullContentExtractor = Some default_fullContentExtractor,
         errorExtractor = Some default_errorExtractor\<rparr>"
  by (cases given)
     (auto simp: fixOpenAICompatibleOptions_def or_default_def no_options_def Let_def
           split: option.splits)

theorem fixOpenAICompatibleOptions_witness:
  "fixOpenAICompatibleOptions no_frames
     (Some \<lparr>streamBuilder = None, contentExtractor = None,
            fullContentExtractor = Some (\<lambda>d. Inr (Some (JStr ''custom''))),
            errorExtractor = None\<rparr>)
   = \<lparr>streamBuilder = Some (\<lambda>r c. Inr (Some (no_frames r c))),
      contentExtractor = Some default_contentExtractor,
      fullContentExtractor = Some (\<lambda>d. Inr (Some (JStr ''custom''))),
      errorExtractor = Some default_errorExtractor\<rparr>"
proof -
  let ?o = "\<lparr>streamBuilder = None, contentExtractor = None,
            fullContentExtractor = Some (\<lambda>d. Inr (Some (JStr ''custom''))),
            errorExtractor = None\<rparr>"
  note t = fixOpenAICompatibleOptions_defaulting [of no_frames "Some ?o"]
  note f = t [THEN conjunct2, THEN conjunct2, THEN conjunct2, THEN conjunct2, THEN conjunct2,
              THEN conjunct1, THEN spec, of ?o]
  have "streamBuilder (fixOpenAICompatibleOptions no_frames (Some ?o))
          = Some (\<lambda>r c. Inr (Some (no_frames r c)))"
    and "contentExtractor (fixOpenAICompatibleOptions no_frames (Some ?o))
          = Some default_contentExtractor"
    and "fullContentExtractor (fixOpenAICompatibleOptions no_frames (Some ?o))
          = Some (\<lambda>d. Inr (Some (JStr ''custom'')))"
    and "errorExtractor (fixOpenAICompatibleOptions no_frames (Some ?o))
          = Some default_errorExtractor"
    using f by simp_all
  then show ?thesis
    by (cases "fixOpenAICompatibleOptions no_frames (Some ?o)") simp
qed

section \<open>mapResponseToAnswer outside the streaming path\<close>

lemma nonstream_path:
  "\<not> (onStream \<noteq> None \<and> ok resp \<and> isEventStreamResponse resp) \<Longrightarrow>
   mapResponseToAnswer new_Stream min_interval clock resp ctl options0 onStream =
     (if \<not> isJsonResponse resp then (Throws (Throw Error (statusText resp)), [])
      else case json_result resp of
             Inl e \<Rightarrow> (Throws e, [])
           | Inr result \<Rightarrow>
               if \<not> truthy (Some result) then (Throws (Throw Error ''Empty response''), [])
               else
                 (case raise_extracted
                    (opt_call (errorExtractor (fixOpenAICompatibleOptions new_Stream options0)) result)
                    (opt_call (errorExtractor (fixOpenAICompatibleOptions new_Stream options0)) result) of
                    Some ended \<Rightarrow> (ended, [])
                  | None \<Rightarrow>
                      (full_answer (opt_call (fullContentExtractor
                         (fixOpenAICompatibleOptions new_Stream options0)) result), [])))"
  unfolding mapResponseToAnswer_def Let_def by (simp only: if_False)

lemma fix_None_fields:
  "errorExtractor (fixOpenAICompatibleOptions new_Stream None) = Some default_errorExtractor"
  "fullContentExtractor (fixOpenAICompatibleOptions new_Stream None) = Some default_fullContentExtractor"
  "contentExtractor (fixOpenAICompatibleOptions new_Stream None) = Some default_contentExtractor"
  by (simp_all add: fixOpenAICompatibleOptions_def or_default_def no_options_def)

lemma fix_Some_fields:
  "errorExtractor (fixOpenAICompatibleOptions new_Stream (Some opts)) =
     Some (case errorExtractor opts of Some f \<Rightarrow> f | None \<Rightarrow> default_errorExtractor)"
  "fullContentExtractor (fixOpenAICompatibleOptions new_Stream (Some opts)) =
     Some (case fullContentExtractor opts of Some f \<Rightarrow> f | None \<Rightarrow> default_fullContentExtractor)"
  "contentExtractor (fixOpenAICompatibleOptions new_Stream (Some opts)) =
     Some (case contentExtractor opts of Some f \<Rightarrow> f | None \<Rightarrow> default_contentExtractor)"
  by (simp_all add: fixOpenAICompatibleOptions_def or_default_def split: option.splits)

text \<open>
  Claim C10, as amended. For a response that classifies as an event stream but is not
  \<^verbatim>\<open>ok\<close>, \<open>mapResponseToAnswer\<close> does not take the streaming path even when a sink is
  supplied: the sink is never called and the result is the one computed without a sink.
  The call fails with the response's \<^verbatim>\<open>statusText\<close> when the content type does not also
  contain \<^verbatim>\<open>application/json\<close>. The two classifier predicates are independent substring
  tests, so a content type can satisfy both; then the body is read as JSON.
\<close>

theorem mapResponseToAnswer_not_ok_event_stream:
  "isEventStreamResponse resp \<Longrightarrow> \<not> ok resp \<Longrightarrow>
   snd (mapResponseToAnswer new_Stream min_interval clock resp ctl options0 onStream) = []
   \<and> mapResponseToAnswer new_Stream min_interval clock resp ctl options0 onStream =
       mapResponseToAnswer new_Stream min_interval clock resp ctl options0 None
   \<and> (\<not> isJsonResponse resp \<longrightarrow>
        mapResponseToAnswer new_Stream min_interval clock resp ctl options0 onStream =
          (Throws (Throw Error (statusText resp)), []))"
  by (simp add: nonstream_path split: sum.splits option.splits)

text \<open>
  The claim as written fails for the content type
  \<^verbatim>\<open>text/event-stream, application/json\<close>: the response is an event stream and not \<^verbatim>\<open>ok\<close>,
  and the call returns the answer of the JSON body instead of failing.
\<close>

theorem mapResponseToAnswer_not_ok_event_stream_counterexample:
  "isEventStreamResponse both_types_response
   \<and> ok both_types_response = False
   \<and> mapResponseToAnswer no_frames 0 (\<lambda>n. 0) both_types_response None None (Some quiet_sink)
       = (Returns ''hi'', [])"
  by code_simp

theorem mapResponseToAnswer_not_ok_event_stream_witness:
  "isEventStreamResponse (both_types_response\<lparr>content_type := Some ''text/event-stream''\<rparr>)
   \<and> ok (both_types_response\<lparr>content_type := Some ''text/event-stream''\<rparr>) = False
   \<and> mapResponseToAnswer no_frames 0 (\<lambda>n. 0)
        (both_types_response\<lparr>content_type := Some ''text/event-stream''\<rparr>)
        None None (Some quiet_sink)
       = (Throws (Throw Error ''Bad Gateway''), [])"
proof -
  let ?r = "both_types_response\<lparr>content_type := Some ''text/event-stream''\<rparr>"
  have e: "isEventStreamResponse ?r" by code_simp
  have k: "\<not> ok ?r" by (simp add: both_types_response_def)
  have j: "\<not> isJsonResponse ?r" by code_simp
  have s: "statusText ?r = ''Bad Gateway''" by (simp add: both_types_response_def)
  have "mapResponseToAnswer no_frames 0 (\<lambda>n. 0) ?r None None (Some quiet_sink)
      = (Throws (Throw Error (statusText ?r)), [])"
    using mapResponseToAnswer_not_ok_event_stream
      [OF e k, of no_frames 0 "\<lambda>n. 0" None None "Some quiet_sink"] j
    by blast
  with e k s show ?thesis by simp
qed

text \<open>
  Claim C4, as amended. The default full-content extractor reads
  \<^verbatim>\<open>choices[0].message.content\<close>, and the mapper with the default extractors returns \<^verbatim>\<open>hi\<close>
  for the body \<^verbatim>\<open>{"choices":[{"message":{"content":"<think>x</think>hi"}}]}\<close>. It yields
  \<^verbatim>\<open>undefined\<close>, without failing, when \<^verbatim>\<open>choices\<close> is absent, \<^verbatim>\<open>null\<close> or empty or when
  the first choice is \<^verbatim>\<open>null\<close>. It throws when the body is \<^verbatim>\<open>null\<close>, when a first choice
  is there but has no \<^verbatim>\<open>message\<close> (where the delta extractor, for a first choice with no
  \<^verbatim>\<open>delta\<close>, yields \<^verbatim>\<open>undefined\<close>), and, like the delta extractor, when \<^verbatim>\<open>choices\<close> has no
  method \<^verbatim>\<open>at\<close>.
\<close>

theorem default_fullContentExtractor_strictness:
  "(get_prop ''choices'' d = Some (JArr (first # rest)) \<longrightarrow> first \<noteq> JNull \<longrightarrow>
      get_prop ''message'' first = Some m \<longrightarrow> m \<noteq> JNull \<longrightarrow>
      default_fullContentExtractor d = Inr (get_prop ''content'' m))
   \<and> default_fullContentExtractor (openai_body c) = Inr (Some c)
   \<and> (\<not> (onStream \<noteq> None \<and> ok resp \<and> isEventStreamResponse resp) \<longrightarrow>
       isJsonResponse resp \<longrightarrow>
       json_result resp = Inr (openai_body (JStr ''<think>x</think>hi'')) \<longrightarrow>
       mapResponseToAnswer new_Stream min_interval clock resp ctl None onStream
         = (Returns ''hi'', []))
   \<and> (d \<noteq> JNull \<longrightarrow>
       get_prop ''choices'' d \<in> {None, Some JNull, Some (JArr []), Some (JStr [])}
         \<or> (\<exists>others. get_prop ''choices'' d = Some (JArr (JNull # others))) \<longrightarrow>
       default_fullContentExtractor d = Inr None)
   \<and> default_fullContentExtractor JNull = Inl type_error
   \<and> default_contentExtractor JNull = Inr None
   \<and> (get_prop ''choices'' d = Some choices \<longrightarrow> at0 choices = Inr (Some first) \<longrightarrow>
       first \<noteq> JNull \<longrightarrow> get_prop ''message'' first \<in> {None, Some JNull} \<longrightarrow>
       default_fullContentExtractor d = Inl type_error
       \<and> (get_prop ''delta'' first \<in> {None, Some JNull} \<longrightarrow>
            default_contentExtractor d = Inr None))
   \<and> (get_prop ''choices'' d = Some choices \<longrightarrow> choices \<noteq> JNull \<longrightarrow>
       at0 choices = Inl type_error \<longrightarrow>
       default_fullContentExtractor d = Inl type_error
       \<and> default_contentExtractor d = Inl type_error)"
proof (intro conjI impI)
  show "default_fullContentExtractor (openai_body c) = Inr (Some c)"
    by (cases c) (simp_all add: default_fullContentExtractor_def openai_body_def)
  show "default_fullContentExtractor JNull = Inl type_error"
    by (simp add: default_fullContentExtractor_def)
  show "default_contentExtractor JNull = Inr None"
    by (simp add: default_contentExtractor_def)
next
  assume "get_prop ''choices'' d = Some (JArr (first # rest))" "first \<noteq> JNull"
    "get_prop ''message'' first = Some m" "m \<noteq> JNull"
  then show "default_fullContentExtractor d = Inr (get_prop ''content'' m)"
    by (cases d; cases first; cases m) (simp_all add: default_fullContentExtractor_def)
next
  assume "\<not> (onStream \<noteq> None \<and> ok resp \<and> isEventStreamResponse resp)"
    "isJsonResponse resp"
    "json_result resp = Inr (openai_body (JStr ''<think>x</think>hi''))"
  moreover have "stripThinkingContent ''<think>x</think>hi'' = ''hi''" by code_simp
  moreover have "default_fullContentExtractor (openai_body (JStr ''<think>x</think>hi''))
      = Inr (Some (JStr ''<think>x</think>hi''))"
    by (simp add: default_fullContentExtractor_def openai_body_def)
  moreover have "default_errorExtractor (openai_body (JStr ''<think>x</think>hi'')) = Inr None"
    by (simp add: default_errorExtractor_def openai_body_def)
  moreover have "truthy (Some (openai_body (JStr ''<think>x</think>hi'')))"
    by (simp add: openai_body_def)
  ultimately show "mapResponseToAnswer new_Stream min_interval clock resp ctl None onStream
         = (Returns ''hi'', [])"
    by (simp add: nonstream_path fix_None_fields opt_call_def raise_extracted_def full_answer_def)
next
  assume "d \<noteq> JNull"
    "get_prop ''choices'' d \<in> {None, Some JNull, Some (JArr []), Some (JStr [])}
         \<or> (\<exists>others. get_prop ''choices'' d = Some (JArr (JNull # others)))"
  then show "default_fullContentExtractor d = Inr None"
    by (cases d) (auto simp: default_fullContentExtractor_def)
next
  assume a: "get_prop ''choices'' d = Some choices" "at0 choices = Inr (Some first)"
    "first \<noteq> JNull" "get_prop ''message'' first \<in> {None, Some JNull}"
  then have c: "choices \<noteq> JNull" by auto
  from a c show "default_fullContentExtractor d = Inl type_error"
    by (cases d; cases choices; cases first) (auto simp: default_fullContentExtractor_def)
  assume "get_prop ''delta'' first \<in> {None, Some JNull}"
  with a c show "default_contentExtractor d = Inr None"
    by (cases d; cases choices; cases first) (auto simp: default_contentExtractor_def)
next
  assume a: "get_prop ''choices'' d = Some choices" "choices \<noteq> JNull"
    "at0 choices = Inl type_error"
  then show "default_fullContentExtractor d = Inl type_error"
    by (cases d; cases choices) (auto simp: default_fullContentExtractor_def)
  from a show "default_contentExtractor d = Inl type_error"
    by (cases d; cases choices) (auto simp: default_contentExtractor_def)
qed

text \<open>
  The claim as written fails for the body \<^verbatim>\<open>{}\<close>: \<^verbatim>\<open>choices\<close> is absent, the extractor
  yields \<^verbatim>\<open>undefined\<close> and the mapper returns the empty string.
\<close>

theorem default_fullContentExtractor_counterexample:
  "default_fullContentExtractor (JObj []) = Inr None
   \<and> mapResponseToAnswer no_frames 0 (\<lambda>n. 0) (json_response (JObj [])) None None None
       = (Returns [], [])"
  by code_simp

theorem default_fullContentExtractor_witness:
  "default_fullContentExtractor (JObj [(''choices'', JArr [JObj [(''index'', JNum 0)]])])
     = Inl type_error
   \<and> default_contentExtractor (JObj [(''choices'', JArr [JObj [(''index'', JNum 0)]])])
     = Inr None
   \<and> default_fullContentExtractor (JObj [(''choices'', JArr [])]) = Inr None
   \<and> mapResponseToAnswer no_frames 0 (\<lambda>n. 0)
        (json_response (openai_body (JStr ''<think>x</think>hi''))) None None None
       = (Returns ''hi'', [])"
proof -
  let ?first = "JObj [(''index'', JNum 0)]"
  let ?d = "JObj [(''choices'', JArr [?first])]"
  let ?r = "json_response (openai_body (JStr ''<think>x</think>hi''))"
  note t = default_fullContentExtractor_strictness
    [where d = ?d and choices = "JArr [?first]" and first = ?first]
  have 1: "default_fullContentExtractor ?d = Inl type_error \<and> default_contentExtractor ?d = Inr None"
    using t [THEN conjunct2, THEN conjunct2, THEN conjunct2, THEN conjunct2, THEN conjunct2,
             THEN conjunct2, THEN conjunct1]
    by simp
  have 2: "default_fullContentExtractor (JObj [(''choices'', JArr [])]) = Inr None"
    using default_fullContentExtractor_strictness
      [where d = "JObj [(''choices'', JArr [])]", THEN conjunct2, THEN conjunct2, THEN conjunct2,
       THEN conjunct1]
    by simp
  have j: "isJsonResponse ?r" by code_simp
  have 3: "mapResponseToAnswer no_frames 0 (\<lambda>n. 0) ?r None None None = (Returns ''hi'', [])"
    using default_fullContentExtractor_strictness
      [where resp = ?r and onStream = None, THEN conjunct2, THEN conjunct2, THEN conjunct1] j
    by (simp add: json_response_def)
  from 1 2 3 show ?thesis by simp
qed

text \<open>
  Claim C6, as amended. Outside the streaming path: a response that is not JSON fails
  with its \<^verbatim>\<open>statusText\<close>; a falsy parsed body fails with \<^verbatim>\<open>Empty response\<close>; and when the
  error extractor answers with a non-empty message the call fails with exactly that
  message, whatever the full-content extractor is (it is not reached), as it does with
  the default extractors for a body with \<^verbatim>\<open>error.message\<close>. A falsy answer of the error
  extractor, present or not, is no error: the call goes on to the full-content
  extractor. The message \<^verbatim>\<open>Unknown error\<close> of line 111 is used only when the second call
  of the extractor answers with a falsy value after the first has answered with a truthy
  one.
\<close>

theorem mapResponseToAnswer_json_path_failures:
  assumes "\<not> (onStream \<noteq> None \<and> ok resp \<and> isEventStreamResponse resp)"
  shows
  "(\<not> isJsonResponse resp \<longrightarrow>
      mapResponseToAnswer new_Stream min_interval clock resp ctl options0 onStream
        = (Throws (Throw Error (statusText resp)), []))
   \<and> (isJsonResponse resp \<longrightarrow> json_result resp = Inr result \<longrightarrow> \<not> truthy (Some result) \<longrightarrow>
      mapResponseToAnswer new_Stream min_interval clock resp ctl options0 onStream
        = (Throws (Throw Error ''Empty response''), []))
   \<and> (isJsonResponse resp \<longrightarrow> json_result resp = Inr result \<longrightarrow> truthy (Some result) \<longrightarrow>
      extract_error result = Inr (Some (JStr m)) \<longrightarrow> m \<noteq> [] \<longrightarrow>
      (\<forall>build extract_delta extract_full.
         mapResponseToAnswer new_Stream min_interval clock resp ctl
           (Some \<lparr>streamBuilder = build, contentExtractor = extract_delta,
                  fullContentExtractor = extract_full,
                  errorExtractor = Some extract_error\<rparr>) onStream
         = (Throws (Throw Error m), [])))
   \<and> (isJsonResponse resp \<longrightarrow> json_result resp = Inr (JObj members) \<longrightarrow>
      map_of members ''error'' = Some (JObj error_members) \<longrightarrow>
      map_of error_members ''message'' = Some (JStr m) \<longrightarrow> m \<noteq> [] \<longrightarrow>
      mapResponseToAnswer new_Stream min_interval clock resp ctl None onStream
        = (Throws (Throw Error m), []))
   \<and> (isJsonResponse resp \<longrightarrow> json_result resp = Inr result \<longrightarrow> truthy (Some result) \<longrightarrow>
      extract_error result = Inr v \<longrightarrow> \<not> truthy v \<longrightarrow>
      (\<forall>build extract_delta extract_full.
         mapResponseToAnswer new_Stream min_interval clock resp ctl
           (Some \<lparr>streamBuilder = build, contentExtractor = extract_delta,
                  fullContentExtractor = Some extract_full,
                  errorExtractor = Some extract_error\<rparr>) onStream
         = (full_answer (extract_full result), [])))
   \<and> (truthy v \<longrightarrow> \<not> truthy w \<longrightarrow>
      raise_extracted (Inr v) (Inr w) = Some (Throws (Throw Error ''Unknown error'')))
   \<and> (\<not> truthy v \<longrightarrow> raise_extracted (Inr v) second = None)"
proof (intro conjI impI allI)
  show "\<not> isJsonResponse resp \<Longrightarrow>
      mapResponseToAnswer new_Stream min_interval clock resp ctl options0 onStream
        = (Throws (Throw Error (statusText resp)), [])"
    using assms by (simp add: nonstream_path)
  show "isJsonResponse resp \<Longrightarrow> json_result resp = Inr result \<Longrightarrow> \<not> truthy (Some result) \<Longrightarrow>
      mapResponseToAnswer new_Stream min_interval clock resp ctl options0 onStream
        = (Throws (Throw Error ''Empty response''), [])"
    using assms by (simp add: nonstream_path)
  show "truthy v \<Longrightarrow> \<not> truthy w \<Longrightarrow>
      raise_extracted (Inr v) (Inr w) = Some (Throws (Throw Error ''Unknown error''))"
    by (simp add: raise_extracted_def)
  show "\<not> truthy v \<Longrightarrow> raise_extracted (Inr v) second = None"
    by (simp add: raise_extracted_def)
next
  fix build extract_delta extract_full
  assume "isJsonResponse resp" "json_result resp = Inr result" "truthy (Some result)"
    "extract_error result = Inr (Some (JStr m))" "m \<noteq> []"
  then show "mapResponseToAnswer new_Stream min_interval clock resp ctl
           (Some \<lparr>streamBuilder = build, contentExtractor = extract_delta,
                  fullContentExtractor = extract_full,
                  errorExtractor = Some extract_error\<rparr>) onStream
         = (Throws (Throw Error m), [])"
    using assms
    by (simp add: nonstream_path fix_Some_fields opt_call_def raise_extracted_def)
next
  fix build extract_delta extract_full
  assume "isJsonResponse resp" "json_result resp = Inr result" "truthy (Some result)"
    "extract_error result = Inr v" "\<not> truthy v"
  then show "mapResponseToAnswer new_Stream min_interval clock resp ctl
           (Some \<lparr>streamBuilder = build, contentExtractor = extract_delta,
                  fullContentExtractor = Some extract_full,
                  errorExtractor = Some extract_error\<rparr>) onStream
         = (full_answer (extract_full result), [])"
    using assms
    by (simp add: nonstream_path fix_Some_fields opt_call_def raise_extracted_def)
next
  assume "isJsonResponse resp" "json_result resp = Inr (JObj members)"
    "map_of members ''error'' = Some (JObj error_members)"
    "map_of error_members ''message'' = Some (JStr m)" "m \<noteq> []"
  then show "mapResponseToAnswer new_Stream min_interval clock resp ctl None onStream
        = (Throws (Throw Error m), [])"
    using assms
    by (simp add: nonstream_path fix_None_fields opt_call_def raise_extracted_def
          default_errorExtractor_def)
qed

text \<open>
  The claim as written fails for an error extractor that answers with the empty string,
  a falsy value that is present: the call does not fail with \<^verbatim>\<open>Unknown error\<close>, it returns
  the answer of the body.
\<close>

theorem mapResponseToAnswer_json_path_counterexample:
  "mapResponseToAnswer no_frames 0 (\<lambda>n. 0) (json_response (openai_body (JStr ''hi''))) None
     (Some \<lparr>streamBuilder = None, contentExtractor = None, fullContentExtractor = None,
            errorExtractor = Some (\<lambda>d. Inr (Some (JStr [])))\<rparr>) None
   = (Returns ''hi'', [])"
  by code_simp

theorem mapResponseToAnswer_json_path_witness:
  "mapResponseToAnswer no_frames 0 (\<lambda>n. 0)
     ((json_response JNull)\<lparr>content_type := Some ''text/html'', statusText := ''Not Found''\<rparr>)
     None None None = (Throws (Throw Error ''Not Found''), [])
   \<and> mapResponseToAnswer no_frames 0 (\<lambda>n. 0) (json_response JNull) None None None
     = (Throws (Throw Error ''Empty response''), [])
   \<and> mapResponseToAnswer no_frames 0 (\<lambda>n. 0)
       (json_response (JObj [(''error'', JObj [(''message'', JStr ''bad key'')]),
                             (''choices'', JArr [])])) None None None
     = (Throws (Throw Error ''bad key''), [])"
proof -
  let ?h = "(json_response JNull)\<lparr>content_type := Some ''text/html'', statusText := ''Not Found''\<rparr>"
  let ?b = "JObj [(''error'', JObj [(''message'', JStr ''bad key'')]), (''choices'', JArr [])]"
  have nh: "\<not> isJsonResponse ?h" by code_simp
  have j: "isJsonResponse (json_response body)" for body
    by (simp add: json_response_def isJsonResponse_def toLowerCase_def lower_char_def)
  have 1: "mapResponseToAnswer no_frames 0 (\<lambda>n. 0) ?h None None None
      = (Throws (Throw Error (statusText ?h)), [])"
    using mapResponseToAnswer_json_path_failures
      [where onStream = None and resp = ?h, THEN conjunct1] nh
    by simp
  have 2: "mapResponseToAnswer no_frames 0 (\<lambda>n. 0) (json_response JNull) None None None
     = (Throws (Throw Error ''Empty response''), [])"
    using mapResponseToAnswer_json_path_failures
      [where onStream = None and resp = "json_response JNull" and result = JNull,
       THEN conjunct2, THEN conjunct1] j [of JNull]
    by (simp add: json_response_def)
  have 3: "mapResponseToAnswer no_frames 0 (\<lambda>n. 0) (json_response ?b) None None None
     = (Throws (Throw Error ''bad key''), [])"
    using mapResponseToAnswer_json_path_failures
      [where onStream = None and resp = "json_response ?b"
         and members = "[(''error'', JObj [(''message'', JStr ''bad key'')]), (''choices'', JArr [])]"
         and error_members = "[(''message'', JStr ''bad key'')]" and m = "''bad key''",
       THEN conjunct2, THEN conjunct2, THEN conjunct2, THEN conjunct1] j [of ?b]
    by (simp add: json_response_def)
  from 1 2 3 show ?thesis by (simp add: json_response_def)
qed

section \<open>streamHandler: accumulation and the error suffix\<close>

lemma flush_fields:
  "contentFull (snd (flush onStream st)) = contentFull st"
  "updateStep (snd (flush onStream st)) = updateStep st + 20"
  "lengthDelta (snd (flush onStream st)) = 0"
  by (simp_all add: flush_def Let_def split: option.splits)

lemma flush_quiet:
  "\<forall>f history t. onStream = Some f \<longrightarrow> f history t = None \<Longrightarrow> fst (flush onStream st) = None"
  by (simp add: flush_def Let_def split: option.splits)

lemma consume_part_contentFull:
  "extract part = Inr t \<Longrightarrow>
   contentFull (snd (consume_part min_interval clock extract onStream st part))
     = contentFull st @ delta_text extract part"
  by (cases t) (simp_all add: consume_part_def delta_text_def Let_def flush_fields)

lemma consume_part_quiet:
  "extract part = Inr t \<Longrightarrow> \<forall>f history t. onStream = Some f \<longrightarrow> f history t = None \<Longrightarrow>
   fst (consume_part min_interval clock extract onStream st part) = None"
  by (cases t) (simp_all add: consume_part_def Let_def flush_quiet)

lemma consume_all:
  "\<forall>part \<in> set parts. \<exists>t. extract part = Inr t \<Longrightarrow>
   \<forall>f history t. onStream = Some f \<longrightarrow> f history t = None \<Longrightarrow>
   fst (consume min_interval clock extract onStream st parts) = None
   \<and> contentFull (snd (consume min_interval clock extract onStream st parts))
       = contentFull st @ concat (map (delta_text extract) parts)"
proof (induction parts arbitrary: st)
  case Nil
  then show ?case by simp
next
  case (Cons part parts)
  from Cons.prems obtain t where t: "extract part = Inr t" by auto
  obtain thrown st' where step: "consume_part min_interval clock extract onStream st part = (thrown, st')"
    by (cases "consume_part min_interval clock extract onStream st part")
  have "fst (consume_part min_interval clock extract onStream st part) = None"
    using t Cons.prems(2) by (rule consume_part_quiet)
  with step have none: "thrown = None" by simp
  have "contentFull (snd (consume_part min_interval clock extract onStream st part))
      = contentFull st @ delta_text extract part"
    using t by (rule consume_part_contentFull)
  with step have cf: "contentFull st' = contentFull st @ delta_text extract part" by simp
  from Cons.prems have rest: "\<forall>part \<in> set parts. \<exists>t. extract part = Inr t" by simp
  have "fst (consume min_interval clock extract onStream st' parts) = None
   \<and> contentFull (snd (consume min_interval clock extract onStream st' parts))
       = contentFull st' @ concat (map (delta_text extract) parts)"
    using rest Cons.prems(2) by (rule Cons.IH)
  with step none cf show ?case by simp
qed

text \<open>
  Claim C5, as amended. When the frame sequence raises an error object after its frames
  have been consumed (the extractor throws on none of them and the sink never rejects),
  \<open>streamHandler\<close> returns, without raising, the sanitized text of all the frames followed
  by a line break, \<^verbatim>\<open>Error: \<close> and the error's message. A thrown value that has no message
  and is neither \<^verbatim>\<open>null\<close> nor \<^verbatim>\<open>undefined\<close> gives the same suffix with the text
  \<^verbatim>\<open>undefined\<close>. When the thrown value is \<^verbatim>\<open>null\<close> or \<^verbatim>\<open>undefined\<close>, reading its message
  throws inside the \<^verbatim>\<open>catch\<close> block and \<open>streamHandler\<close> raises that \<^verbatim>\<open>TypeError\<close>. When the
  sequence ends normally it returns the sanitized text of all the frames: the final pass
  of \<open>stripThinkingContent\<close> is applied whenever it returns.
\<close>

theorem streamHandler_failure_suffix:
  assumes "\<forall>part \<in> set parts. \<exists>t. extract part = Inr t"
    and "\<forall>f history t. onStream = Some f \<longrightarrow> f history t = None"
  shows "fst (streamHandler min_interval clock
                \<lparr>yields = parts, raises = Some (Throw kind msg)\<rparr> extract onStream)
           = Inr (stripThinkingContent
                    (concat (map (delta_text extract) parts) @ CHR 0x0A # ''Error: '' @ msg))
         \<and> fst (streamHandler min_interval clock
                \<lparr>yields = parts, raises = Some ThrowPlain\<rparr> extract onStream)
           = Inr (stripThinkingContent
                    (concat (map (delta_text extract) parts) @ CHR 0x0A # ''Error: undefined''))
         \<and> fst (streamHandler min_interval clock
                \<lparr>yields = parts, raises = Some ThrowNullish\<rparr> extract onStream)
           = Inl type_error
         \<and> fst (streamHandler min_interval clock \<lparr>yields = parts, raises = None\<rparr> extract onStream)
           = Inr (stripThinkingContent (concat (map (delta_text extract) parts)))"
proof -
  obtain thrown st where c: "consume min_interval clock extract onStream (initial clock) parts = (thrown, st)"
    by (cases "consume min_interval clock extract onStream (initial clock) parts")
  have "fst (consume min_interval clock extract onStream (initial clock) parts) = None
   \<and> contentFull (snd (consume min_interval clock extract onStream (initial clock) parts))
       = contentFull (initial clock) @ concat (map (delta_text extract) parts)"
    using assms by (rule consume_all)
  with c have "thrown = None" and "contentFull st = concat (map (delta_text extract) parts)"
    by (simp_all add: initial_def)
  with c show ?thesis
    by (simp add: streamHandler_def error_prefix_def newline_def)
qed

text \<open>
  The claim as written fails for a sequence that throws \<^verbatim>\<open>null\<close>: the call raises instead
  of returning the text with a suffix.
\<close>

theorem streamHandler_failure_suffix_counterexample:
  "fst (streamHandler 0 (\<lambda>n. 0) \<lparr>yields = [''partial''], raises = Some ThrowNullish\<rparr>
         (\<lambda>part. Inr (Some part)) (Some quiet_sink))
     = Inl type_error"
  by code_simp

theorem streamHandler_failure_suffix_witness:
  "fst (streamHandler 0 (\<lambda>n. 0)
         \<lparr>yields = [''visible'', [], ''<think>hid''], raises = Some (Throw Error ''socket closed'')\<rparr>
         (\<lambda>part. Inr (Some part)) (Some quiet_sink)) = Inr ''visible''
   \<and> fst (streamHandler 0 (\<lambda>n. 0)
         \<lparr>yields = [''  partial'', '' answer''], raises = Some (Throw Error ''socket closed'')\<rparr>
         (\<lambda>part. Inr (Some part)) (Some quiet_sink))
       = Inr (''partial answer'' @ CHR 0x0A # ''Error: socket closed'')"
proof -
  let ?x = "\<lambda>part::string. (Inr (Some part) :: exn + string option)"
  have q: "\<forall>f history t. Some quiet_sink = Some f \<longrightarrow> f history t = None"
    by (simp add: quiet_sink_def)
  have 1: "stripThinkingContent (concat (map (delta_text ?x) [''visible'', [], ''<think>hid''])
             @ CHR 0x0A # ''Error: '' @ ''socket closed'') = ''visible''"
    by code_simp
  have 2: "stripThinkingContent (concat (map (delta_text ?x) [''  partial'', '' answer''])
             @ CHR 0x0A # ''Error: '' @ ''socket closed'')
           = ''partial answer'' @ CHR 0x0A # ''Error: socket closed''"
    by code_simp
  have a: "\<forall>part \<in> set parts. \<exists>t. ?x part = Inr t" for parts by simp
  have "fst (streamHandler 0 (\<lambda>n. 0)
         \<lparr>yields = [''visible'', [], ''<think>hid''], raises = Some (Throw Error ''socket closed'')\<rparr>
         ?x (Some quiet_sink))
       = Inr (stripThinkingContent (concat (map (delta_text ?x) [''visible'', [], ''<think>hid''])
             @ CHR 0x0A # ''Error: '' @ ''socket closed''))"
    using streamHandler_failure_suffix [of _ "?x" "Some quiet_sink", OF a q] by blast
  moreover have "fst (streamHandler 0 (\<lambda>n. 0)
         \<lparr>yields = [''  partial'', '' answer''], raises = Some (Throw Error ''socket closed'')\<rparr>
         ?x (Some quiet_sink))
       = Inr (stripThinkingContent (concat (map (delta_text ?x) [''  partial'', '' answer''])
             @ CHR 0x0A # ''Error: '' @ ''socket closed''))"
    using streamHandler_failure_suffix [of _ "?x" "Some quiet_sink", OF a q] by blast
  ultimately show ?thesis using 1 2 by simp
qed

section \<open>streamHandler: the flush threshold\<close>

lemma delta_text_Some: "extract part = Inr (Some t) \<Longrightarrow> delta_text extract part = t"
  by (simp add: delta_text_def)

lemma consume_part_below:
  "extract part = Inr (Some t) \<Longrightarrow> lengthDelta st + length t \<le> updateStep st \<Longrightarrow>
   consume_part min_interval clock extract onStream st part =
     (None, st\<lparr>lengthDelta := lengthDelta st + length t, contentFull := contentFull st @ t\<rparr>)"
  by (simp add: consume_part_def Let_def)

lemma consume_below:
  "\<forall>part \<in> set parts. \<exists>t. extract part = Inr (Some t) \<Longrightarrow>
   lengthDelta st + length (concat (map (delta_text extract) parts)) \<le> updateStep st \<Longrightarrow>
   consume min_interval clock extract onStream st parts =
     (None, st\<lparr>lengthDelta := lengthDelta st + length (concat (map (delta_text extract) parts)),
                contentFull := contentFull st @ concat (map (delta_text extract) parts)\<rparr>)"
proof (induction parts arbitrary: st)
  case Nil
  then show ?case by simp
next
  case (Cons part parts)
  from Cons.prems(1) obtain t where t: "extract part = Inr (Some t)" by auto
  then have d: "delta_text extract part = t" by (rule delta_text_Some)
  let ?st = "st\<lparr>lengthDelta := lengthDelta st + length t, contentFull := contentFull st @ t\<rparr>"
  from Cons.prems(2) d have le: "lengthDelta st + length t \<le> updateStep st" by simp
  have step: "consume_part min_interval clock extract onStream st part = (None, ?st)"
    using t le by (rule consume_part_below)
  have rest: "\<forall>part \<in> set parts. \<exists>t. extract part = Inr (Some t)"
    using Cons.prems(1) by simp
  have le': "lengthDelta ?st + length (concat (map (delta_text extract) parts)) \<le> updateStep ?st"
    using Cons.prems(2) d by simp
  have "consume min_interval clock extract onStream ?st parts =
     (None, ?st\<lparr>lengthDelta := lengthDelta ?st + length (concat (map (delta_text extract) parts)),
                contentFull := contentFull ?st @ concat (map (delta_text extract) parts)\<rparr>)"
    using rest le' by (rule Cons.IH)
  with step d show ?case by (simp add: add.assoc)
qed

lemma consume_append:
  "consume min_interval clock extract onStream st (ps @ qs) =
     (case consume min_interval clock extract onStream st ps of
        (Some e, st') \<Rightarrow> (Some e, st')
      | (None, st') \<Rightarrow> consume min_interval clock extract onStream st' qs)"
  by (induction ps arbitrary: st) (auto split: prod.splits option.splits)

lemma length_concat_fixed:
  "\<forall>part \<in> set parts. length (f part) = k \<Longrightarrow> length (concat (map f parts)) = k * length parts"
  by (induction parts) simp_all

lemma ten_frames:
  assumes len: "length parts = 10"
    and ten: "\<forall>part \<in> set parts. \<exists>t. extract part = Inr (Some t) \<and> length t = 10"
    and off: "min_interval \<le> 0"
  shows "sent (snd (consume min_interval clock extract onStream (initial clock) parts)) =
     (case onStream of
        None \<Rightarrow> []
      | Some f \<Rightarrow>
          (let shown = stripThinkingContent (concat (map (delta_text extract) (take 6 parts)))
           in if shown = [] then [] else [shown @ ellipsis]))
     \<and> updateStep (snd (consume min_interval clock extract onStream (initial clock) parts)) = 70"
proof -
  define A where "A = take 5 parts"
  define p where "p = parts ! 5"
  define B where "B = drop 6 parts"
  define shown where "shown = stripThinkingContent (concat (map (delta_text extract) (take 6 parts)))"
  have six: "Suc 5 = 6" by simp
  have "parts = take 5 parts @ parts ! 5 # drop (Suc 5) parts"
    using len by (intro id_take_nth_drop) simp
  then have split: "parts = A @ p # B"
    by (simp only: six A_def p_def B_def)
  have "take (Suc 5) parts = take 5 parts @ [parts ! 5]"
    using len by (intro take_Suc_conv_app_nth) simp
  then have take6: "take 6 parts = A @ [p]"
    by (simp only: six A_def p_def)
  have lenA: "length A = 5" and lenB: "length B = 4" using len by (simp_all add: A_def B_def)
  have inA: "set A \<subseteq> set parts" and inB: "set B \<subseteq> set parts" and inp: "p \<in> set parts"
    using len by (auto simp: A_def B_def p_def dest: in_set_takeD in_set_dropD)
  have someA: "\<forall>part \<in> set A. \<exists>t. extract part = Inr (Some t)"
    and someB: "\<forall>part \<in> set B. \<exists>t. extract part = Inr (Some t)"
    using ten inA inB by blast+
  have fixed: "\<forall>part \<in> set parts. length (delta_text extract part) = 10"
    using ten by (auto simp: delta_text_def)
  have sizeA: "length (concat (map (delta_text extract) A)) = 50"
    using length_concat_fixed [of A "delta_text extract" 10] fixed inA lenA by auto
  have sizeB: "length (concat (map (delta_text extract) B)) = 40"
    using length_concat_fixed [of B "delta_text extract" 10] fixed inB lenB by auto
  from ten inp obtain t where t: "extract p = Inr (Some t)" and lent: "length t = 10" by blast
  then have dp: "delta_text extract p = t" by (simp add: delta_text_def)
  from lent have tne: "t \<noteq> []" by auto
  let ?c5 = "concat (map (delta_text extract) A)"
  let ?st5 = "(initial clock)\<lparr>lengthDelta := lengthDelta (initial clock) + length ?c5,
                contentFull := contentFull (initial clock) @ ?c5\<rparr>"
  have first: "consume min_interval clock extract onStream (initial clock) A = (None, ?st5)"
    using someA by (rule consume_below) (simp add: sizeA initial_def)
  let ?st6 = "?st5\<lparr>lengthDelta := lengthDelta ?st5 + length t,
                   contentFull := contentFull ?st5 @ t\<rparr>"
  have c6: "contentFull ?st6 = concat (map (delta_text extract) (take 6 parts))"
    by (simp add: take6 dp initial_def)
  have sixth: "consume_part min_interval clock extract onStream ?st5 p = flush onStream ?st6"
    using t lent tne off by (simp add: consume_part_def Let_def sizeA initial_def)
  let ?st7 = "?st6\<lparr>lengthDelta := 0, updateStep := updateStep ?st6 + 20\<rparr>"
  have after: "sent (snd (consume min_interval clock extract onStream st' B)) = sent st'
      \<and> updateStep (snd (consume min_interval clock extract onStream st' B)) = 70"
    if "lengthDelta st' = 0" "updateStep st' = 70" for st'
  proof -
    have "consume min_interval clock extract onStream st' B =
      (None, st'\<lparr>lengthDelta := lengthDelta st' + length (concat (map (delta_text extract) B)),
                  contentFull := contentFull st' @ concat (map (delta_text extract) B)\<rparr>)"
      using someB by (rule consume_below) (simp add: that sizeB)
    then show ?thesis by (simp add: that)
  qed
  have whole: "consume min_interval clock extract onStream (initial clock) parts =
     (case flush onStream ?st6 of
        (Some e, st') \<Rightarrow> (Some e, st')
      | (None, st') \<Rightarrow> consume min_interval clock extract onStream st' B)"
    by (simp add: split consume_append first sixth)
  have shown6: "stripThinkingContent (contentFull ?st6) = shown"
    by (simp only: c6 shown_def)
  let ?final = "snd (consume min_interval clock extract onStream (initial clock) parts)"
  show ?thesis
  proof (cases "shown = []")
    case True
    then have "flush onStream ?st6 = (None, ?st7)"
      using shown6 by (simp add: flush_def Let_def)
    then have "sent ?final = sent ?st7 \<and> updateStep ?final = 70"
      using whole after [of ?st7] by (simp add: initial_def)
    then show ?thesis using True by (simp add: shown_def [symmetric] initial_def split: option.splits)
  next
    case False
    let ?st8 = "?st7\<lparr>lastStreamText := shown\<rparr>"
    show ?thesis
    proof (cases onStream)
      case None
      then have "flush onStream ?st6 = (None, ?st8)"
        using shown6 False by (simp add: flush_def Let_def initial_def)
      then have "sent ?final = sent ?st8 \<and> updateStep ?final = 70"
        using whole after [of ?st8] by (simp add: initial_def)
      then show ?thesis using None by (simp add: initial_def)
    next
      case (Some f)
      let ?st9 = "?st8\<lparr>sent := sent ?st8 @ [shown @ ellipsis]\<rparr>"
      have fl: "flush onStream ?st6 = (f (sent ?st8) (shown @ ellipsis), ?st9)"
        using shown6 False Some by (simp add: flush_def Let_def initial_def)
      have "sent ?final = sent ?st9 \<and> updateStep ?final = 70"
      proof (cases "f (sent ?st8) (shown @ ellipsis)")
        case None
        with fl whole after [of ?st9] show ?thesis by (simp add: initial_def)
      next
        case (Some e)
        with fl whole show ?thesis by (simp add: initial_def)
      qed
      then show ?thesis using Some False by (simp add: shown_def [symmetric] initial_def)
    qed
  qed
qed

lemma consume_part_flushes:
  "consume_part min_interval clock extract onStream st part = (thrown, st') \<Longrightarrow>
   (updateStep st' = updateStep st \<and> sent st' = sent st)
   \<or> (\<exists>t. extract part = Inr (Some t) \<and> lengthDelta st + length t > updateStep st
         \<and> updateStep st' = updateStep st + 20 \<and> lengthDelta st' = 0)"
  by (auto simp: consume_part_def Let_def flush_def split: sum.splits option.splits if_splits)

text \<open>
  Claim C2, as amended. \<open>updateStep\<close> starts at 50 and a flush adds 20 to it and resets
  \<open>lengthDelta\<close>; a turn of the loop flushes only when \<open>lengthDelta\<close>, with the new delta
  added, exceeds \<open>updateStep\<close>, and otherwise leaves \<open>updateStep\<close> and the sink alone.
  With the minimum interval switched off, ten frames of ten characters each flush once,
  at the sixth frame (\<open>updateStep\<close> ends at 70). The sink is called once, with the
  sanitized text of the first six deltas followed by a line break and three dots, when
  that sanitized text is not empty, and it is not called at all when it is empty.
\<close>

theorem streamHandler_flush_threshold:
  "updateStep (initial clock) = 50
   \<and> updateStep (snd (flush onStream st)) = updateStep st + 20
   \<and> lengthDelta (snd (flush onStream st)) = 0
   \<and> (consume_part min_interval clock extract onStream st part = (thrown, st') \<longrightarrow>
        (updateStep st' = updateStep st \<and> sent st' = sent st)
        \<or> (\<exists>t. extract part = Inr (Some t) \<and> lengthDelta st + length t > updateStep st
              \<and> updateStep st' = updateStep st + 20 \<and> lengthDelta st' = 0))
   \<and> (length parts = 10 \<longrightarrow>
        (\<forall>part \<in> set parts. \<exists>t. extract part = Inr (Some t) \<and> length t = 10) \<longrightarrow>
        min_interval \<le> 0 \<longrightarrow>
        snd (streamHandler min_interval clock \<lparr>yields = parts, raises = ending\<rparr> extract (Some f))
          = (let shown = stripThinkingContent (concat (map (delta_text extract) (take 6 parts)))
             in if shown = [] then [] else [shown @ CHR 0x0A # ''...''])
        \<and> updateStep (snd (consume min_interval clock extract (Some f) (initial clock) parts)) = 70)"
proof (intro conjI impI)
  show "updateStep (initial clock) = 50" by (simp add: initial_def)
  show "updateStep (snd (flush onStream st)) = updateStep st + 20"
    and "lengthDelta (snd (flush onStream st)) = 0"
    by (simp_all add: flush_fields)
  show "(updateStep st' = updateStep st \<and> sent st' = sent st)
        \<or> (\<exists>t. extract part = Inr (Some t) \<and> lengthDelta st + length t > updateStep st
              \<and> updateStep st' = updateStep st + 20 \<and> lengthDelta st' = 0)"
    if "consume_part min_interval clock extract onStream st part = (thrown, st')"
    using that by (rule consume_part_flushes)
next
  assume a: "length parts = 10"
    "\<forall>part \<in> set parts. \<exists>t. extract part = Inr (Some t) \<and> length t = 10"
    "min_interval \<le> 0"
  note t = ten_frames [OF a, of clock "Some f"]
  from t show "updateStep (snd (consume min_interval clock extract (Some f) (initial clock) parts)) = 70"
    by simp
  have "snd (streamHandler min_interval clock \<lparr>yields = parts, raises = ending\<rparr> extract (Some f))
      = sent (snd (consume min_interval clock extract (Some f) (initial clock) parts))"
    by (cases "consume min_interval clock extract (Some f) (initial clock) parts")
       (simp add: streamHandler_def split: option.splits sum.splits)
  with t show "snd (streamHandler min_interval clock \<lparr>yields = parts, raises = ending\<rparr> extract (Some f))
          = (let shown = stripThinkingContent (concat (map (delta_text extract) (take 6 parts)))
             in if shown = [] then [] else [shown @ CHR 0x0A # ''...''])"
    by (simp add: ellipsis_def newline_def Let_def)
qed

text \<open>
  The claim as written fails when the text so far lies inside a thinking block: the one
  flush finds nothing to show and the sink is never called.
\<close>

theorem streamHandler_flush_threshold_counterexample:
  "length thinking_frames = 10
   \<and> list_all (\<lambda>t. length t = 10) thinking_frames
   \<and> snd (streamHandler 0 (\<lambda>n. 0) \<lparr>yields = thinking_frames, raises = None\<rparr>
          (\<lambda>part. Inr (Some part)) (Some quiet_sink)) = []"
  by code_simp

theorem streamHandler_flush_threshold_witness:
  "snd (streamHandler 0 (\<lambda>n. 0) \<lparr>yields = digit_frames, raises = None\<rparr>
          (\<lambda>part. Inr (Some part)) (Some quiet_sink))
     = [''012345678901234567890123456789012345678901234567890123456789'' @ CHR 0x0A # ''...'']"
proof -
  let ?x = "\<lambda>part::string. (Inr (Some part) :: exn + string option)"
  have 1: "length digit_frames = 10" by (simp add: digit_frames_def)
  have 2: "\<forall>part \<in> set digit_frames. \<exists>t. ?x part = Inr (Some t) \<and> length t = 10"
    by (simp add: digit_frames_def)
  have 3: "(0::int) \<le> 0" by simp
  have 4: "stripThinkingContent (concat (map (delta_text ?x) (take 6 digit_frames)))
      = ''012345678901234567890123456789012345678901234567890123456789''"
    by code_simp
  have "snd (streamHandler 0 (\<lambda>n. 0) \<lparr>yields = digit_frames, raises = None\<rparr> ?x (Some quiet_sink))
          = (let shown = stripThinkingContent (concat (map (delta_text ?x) (take 6 digit_frames)))
             in if shown = [] then [] else [shown @ CHR 0x0A # ''...''])"
    using streamHandler_flush_threshold
      [of "\<lambda>n. 0" None _ 0 "?x" _ _ _ digit_frames None quiet_sink]
      1 2 3
    by blast
  with 4 show ?thesis by simp
qed

end
